(* ===== verification/Hadock_Prelude.thy ===== *)
theory Hadock_Prelude
  imports Main "HOL-Library.Word" "HOL-Library.Multiset" "HOL-Library.Char_ord"
    "HOL-Library.List_Lexorder"
begin

text \<open>
  Shared vocabulary of the development: the machine integers of the Go sources, the error
  values, the fixed-size big- and little-endian encodings of \<^verbatim>\<open>encoding/binary\<close>, and the
  conversion between Go strings (byte sequences) and HOL strings. The collections
  \<open>wire_simps\<close> (lengths and decodings of encoded fields) and \<open>outcome_splits\<close> (case splits of
  results) carry the component proofs.
\<close>

unbundle bit_operations_syntax

named_theorems wire_simps "lengths and decodings of encoded fields"

type_synonym byte = "8 word"
type_synonym bytes = "8 word list"
type_synonym uint8 = "8 word"
type_synonym uint16 = "16 word"
type_synonym uint32 = "32 word"
type_synonym uint64 = "64 word"

section \<open>Error values\<close>

text \<open>
  Go errors are compared by identity. \<open>EOF\<close> and \<open>ErrUnexpectedEOF\<close> are the sentinels of
  package io, \<open>ErrSentinel\<close> is a package-level variable initialised by \<^verbatim>\<open>errors.New\<close>, \<open>Errorf\<close> a
  value made by \<^verbatim>\<open>fmt.Errorf\<close> (with its format; the formatted arguments only change the text),
  \<open>ErrIO\<close> an error of the operating system or the network, with its number, and
  \<open>GoPanic\<close> a run-time panic (index out of range, nil dereference).
\<close>

datatype go_error =
    EOF
  | ErrUnexpectedEOF
  | ErrSentinel string
  | Errorf string
  | ErrIO nat
  | GoPanic string

type_synonym 'a outcome = "go_error + 'a"

lemmas outcome_splits = sum.splits option.splits prod.splits if_splits

section \<open>Fixed-size integers on the wire\<close>

text \<open>
  \<open>le_nat n v\<close> is the \<open>n\<close>-byte little-endian representation of \<open>v\<close> (modulo \<open>256 ^ n\<close>), \<open>nat_le\<close>
  the value of a little-endian byte sequence. \<open>put_be\<close>, \<open>put_le\<close> model \<^verbatim>\<open>binary.Write\<close> of an
  unsigned or two's complement integer, \<open>get_be\<close>, \<open>get_le\<close> the decoding of \<^verbatim>\<open>binary.Read\<close>.
\<close>

primrec le_nat :: "nat \<Rightarrow> nat \<Rightarrow> bytes" where
  "le_nat 0 v = []"
| "le_nat (Suc n) v = of_nat v # le_nat n (v div 256)"

primrec nat_le :: "bytes \<Rightarrow> nat" where
  "nat_le [] = 0"
| "nat_le (b # bs) = unat b + 256 * nat_le bs"

definition put_le :: "nat \<Rightarrow> 'a::len word \<Rightarrow> bytes" where
  "put_le n w = le_nat n (unat w)"

definition put_be :: "nat \<Rightarrow> 'a::len word \<Rightarrow> bytes" where
  "put_be n w = rev (le_nat n (unat w))"

definition get_le :: "bytes \<Rightarrow> 'a::len word" where
  "get_le bs = of_nat (nat_le bs)"

definition get_be :: "bytes \<Rightarrow> 'a::len word" where
  "get_be bs = of_nat (nat_le (rev bs))"

lemma unat_less_pow: "unat (w :: 'a::len word) < 2 ^ LENGTH('a)"
  by (rule unsigned_less)

lemma unat_byte: "unat (b :: byte) < 256"
  using unat_less_pow [of b] by simp

lemma unat_of_nat_small:
  "n < 2 ^ 16 \<Longrightarrow> unat (of_nat n :: uint16) = n"
  "n < 2 ^ 32 \<Longrightarrow> unat (of_nat n :: uint32) = n"
  by (simp_all add: unat_of_nat)

lemma length_le_nat [simp]: "length (le_nat n v) = n"
  by (induction n arbitrary: v) auto

lemma length_put_le [simp, wire_simps]: "length (put_le n w) = n"
  by (simp add: put_le_def)

lemma length_put_be [simp, wire_simps]: "length (put_be n w) = n"
  by (simp add: put_be_def)

lemma nat_le_less: "nat_le bs < 256 ^ length bs"
proof (induction bs)
  case (Cons b bs)
  with unat_byte [of b] show ?case by simp
qed simp

lemma nat_le_le_nat: "nat_le (le_nat n v) = v mod 256 ^ n"
proof (induction n arbitrary: v)
  case (Suc n)
  have "v mod 256 ^ Suc n = 256 * (v div 256 mod 256 ^ n) + v mod 256"
    by (simp add: mod_mult2_eq)
  then show ?case by (simp add: Suc.IH unat_of_nat)
qed simp

lemma le_nat_nat_le: "length bs = n \<Longrightarrow> le_nat n (nat_le bs) = bs"
proof (induction bs arbitrary: n)
  case (Cons b bs)
  have b: "unat b < 256" by (rule unat_byte)
  then have "(unat b + 256 * nat_le bs) div 256 = nat_le bs" by simp
  moreover have "(of_nat (unat b + 256 * nat_le bs) :: byte) = b"
    by (rule word_unat_eq_iff [THEN iffD2], simp only: unat_of_nat) (use b in simp)
  ultimately show ?case using Cons by auto
qed simp

lemma get_put_le:
  fixes w :: "'a::len word"
  assumes "LENGTH('a) = 8 * n"
  shows "get_le (put_le n w) = w"
proof -
  have "(256::nat) ^ n = 2 ^ LENGTH('a)" by (simp add: assms power_mult)
  then show ?thesis
    using unat_less_pow [of w] by (simp add: get_le_def put_le_def nat_le_le_nat)
qed

lemma get_put_be:
  fixes w :: "'a::len word"
  assumes "LENGTH('a) = 8 * n"
  shows "get_be (put_be n w) = w"
  using get_put_le [OF assms, of w] by (simp add: get_le_def put_le_def get_be_def put_be_def)

lemma put_get_be:
  assumes "LENGTH('a::len) = 8 * n" and "length bs = n"
  shows "put_be n (get_be bs :: 'a word) = bs"
proof -
  have "nat_le (rev bs) < 2 ^ LENGTH('a)"
    using nat_le_less [of "rev bs"] by (simp add: assms power_mult)
  then have "unat (of_nat (nat_le (rev bs)) :: 'a word) = nat_le (rev bs)"
    by (simp add: unat_of_nat)
  then show ?thesis
    by (simp add: put_be_def get_be_def le_nat_nat_le assms)
qed

lemma unat_get_le: "length bs = n \<Longrightarrow> LENGTH('a::len) = 8 * n \<Longrightarrow> unat (get_le bs :: 'a word) = nat_le bs"
  using nat_le_less [of bs] by (simp add: get_le_def unat_of_nat power_mult)

lemmas get_put_widths [simp, wire_simps] =
  get_put_be [where 'a = 8 and n = 1, simplified]
  get_put_be [where 'a = 16 and n = 2, simplified]
  get_put_be [where 'a = 32 and n = 4, simplified]
  get_put_be [where 'a = 64 and n = 8, simplified]
  get_put_le [where 'a = 8 and n = 1, simplified]
  get_put_le [where 'a = 16 and n = 2, simplified]
  get_put_le [where 'a = 32 and n = 4, simplified]
  get_put_le [where 'a = 64 and n = 8, simplified]

abbreviation be8 :: "8 word \<Rightarrow> bytes" where "be8 \<equiv> put_be 1"
abbreviation be16 :: "16 word \<Rightarrow> bytes" where "be16 \<equiv> put_be 2"
abbreviation be32 :: "32 word \<Rightarrow> bytes" where "be32 \<equiv> put_be 4"
abbreviation be64 :: "64 word \<Rightarrow> bytes" where "be64 \<equiv> put_be 8"
abbreviation le8 :: "8 word \<Rightarrow> bytes" where "le8 \<equiv> put_le 1"
abbreviation le16 :: "16 word \<Rightarrow> bytes" where "le16 \<equiv> put_le 2"
abbreviation le32 :: "32 word \<Rightarrow> bytes" where "le32 \<equiv> put_le 4"
abbreviation le64 :: "64 word \<Rightarrow> bytes" where "le64 \<equiv> put_le 8"

lemma put_be_bytes:
  "put_be (Suc 0) w = [of_nat (unat w)]"
  "put_be 2 w = [of_nat (unat w div 256), of_nat (unat w)]"
  "put_be 4 w = [of_nat (unat w div 256 div 256 div 256), of_nat (unat w div 256 div 256),
     of_nat (unat w div 256), of_nat (unat w)]"
proof -
  have two: "(2::nat) = Suc (Suc 0)" and four: "(4::nat) = Suc (Suc (Suc (Suc 0)))" by simp_all
  show "put_be (Suc 0) w = [of_nat (unat w)]" by (simp add: put_be_def)
  show "put_be 2 w = [of_nat (unat w div 256), of_nat (unat w)]"
    unfolding put_be_def two by (simp only: le_nat.simps rev.simps append.simps)
  show "put_be 4 w = [of_nat (unat w div 256 div 256 div 256), of_nat (unat w div 256 div 256),
     of_nat (unat w div 256), of_nat (unat w)]"
    unfolding put_be_def four by (simp only: le_nat.simps rev.simps append.simps)
qed

text \<open>Go writes a boolean as one byte, 1 or 0, and reads any non-zero byte as true.\<close>

definition put_bool :: "bool \<Rightarrow> bytes" where
  "put_bool b = [if b then 1 else 0]"

definition get_bool :: "bytes \<Rightarrow> bool" where
  "get_bool bs = (get_be bs \<noteq> (0 :: 8 word))"

lemma length_put_bool [simp, wire_simps]: "length (put_bool b) = 1"
  by (simp add: put_bool_def)

lemma get_put_bool [simp, wire_simps]: "get_bool (put_bool b) = b"
  by (simp add: get_bool_def put_bool_def get_be_def)

section \<open>Go strings\<close>

text \<open>A Go string is a byte sequence; a HOL string has one \<open>char\<close> per byte.\<close>

definition bytes_of_string :: "string \<Rightarrow> bytes" where
  "bytes_of_string s = map (\<lambda>c. of_nat (of_char c)) s"

definition string_of_bytes :: "bytes \<Rightarrow> string" where
  "string_of_bytes bs = map (\<lambda>b. char_of (unat b)) bs"

lemma length_bytes_of_string [simp, wire_simps]: "length (bytes_of_string s) = length s"
  by (simp add: bytes_of_string_def)

lemma string_of_bytes_of_string [simp, wire_simps]: "string_of_bytes (bytes_of_string s) = s"
proof -
  have "char_of (unat (of_nat (of_char c) :: byte)) = c" for c
    by (simp add: unat_of_nat)
  then show ?thesis
    by (simp add: string_of_bytes_def bytes_of_string_def comp_def)
qed

lemma bytes_of_string_of_bytes [simp, wire_simps]: "bytes_of_string (string_of_bytes bs) = bs"
proof -
  have "(of_nat (of_char (char_of (unat b) :: char)) :: byte) = b" for b :: byte
    using unat_byte [of b] by simp
  then show ?thesis
    by (simp add: string_of_bytes_def bytes_of_string_def comp_def)
qed

text \<open>
  Every Go integer type of fixed size, for the fields of packets defined outside the
  repository: the field is written with its own width.
\<close>

datatype fixed = U8 uint8 | U16 uint16 | U32 uint32 | U64 uint64

primrec fixed_le :: "fixed \<Rightarrow> bytes" where
  "fixed_le (U8 w) = le8 w"
| "fixed_le (U16 w) = le16 w"
| "fixed_le (U32 w) = le32 w"
| "fixed_le (U64 w) = le64 w"

primrec fixed_be :: "fixed \<Rightarrow> bytes" where
  "fixed_be (U8 w) = be8 w"
| "fixed_be (U16 w) = be16 w"
| "fixed_be (U32 w) = be32 w"
| "fixed_be (U64 w) = be64 w"

primrec fixed_size :: "fixed \<Rightarrow> nat" where
  "fixed_size (U8 w) = 1"
| "fixed_size (U16 w) = 2"
| "fixed_size (U32 w) = 4"
| "fixed_size (U64 w) = 8"

lemma length_fixed_le [simp, wire_simps]: "length (fixed_le f) = fixed_size f"
  by (cases f) simp_all

lemma length_fixed_be [simp, wire_simps]: "length (fixed_be f) = fixed_size f"
  by (cases f) simp_all

section \<open>Command lines\<close>

text \<open>
  Package flag hands the values of the command line to the variables of the program in their order; the first value
  that a variable refuses ends the parsing.
\<close>

fun parse_flags :: "('f \<Rightarrow> 'o \<Rightarrow> 'o outcome) \<Rightarrow> 'f list \<Rightarrow> 'o \<Rightarrow> 'o outcome" where
  "parse_flags assign [] opts = Inr opts"
| "parse_flags assign (v # vs) opts = (case assign v opts of Inl e \<Rightarrow> Inl e | Inr opts \<Rightarrow> parse_flags assign vs opts)"

lemma parse_flags_inv:
  assumes "\<And>v o1 o2. P o1 \<Longrightarrow> assign v o1 = Inr o2 \<Longrightarrow> P o2" and "P opts" and "parse_flags assign vs opts = Inr opts'"
  shows "P opts'"
  using assms(2,3) by (induction vs arbitrary: opts) (auto split: sum.splits intro: assms(1))

end
