(* ===== verification/Go_Reader.thy ===== *)
theory Go_Reader
  imports Hadock_Prelude
begin

text \<open>
  Byte sources (\<^verbatim>\<open>io.Reader\<close>) and the reads the sources make on them: \<^verbatim>\<open>io.ReadFull\<close> and
  \<^verbatim>\<open>binary.Read\<close> of fixed-size values. A reader holds the bytes that are still to come and the
  error every read reports once they are exhausted: \<open>EOF\<close> for a peer that closes its
  connection or the end of a file, another error for a source that keeps failing.
  The interface \<open>codec\<close> pairs an encoder with the decoder that reads back what it wrote.
\<close>

section \<open>Readers\<close>

record reader =
  rbuf :: bytes
  rtail :: go_error

type_synonym 'a rd = "reader \<Rightarrow> 'a outcome \<times> reader"

abbreviation source :: "bytes \<Rightarrow> go_error \<Rightarrow> reader" where
  "source bs e \<equiv> \<lparr>rbuf = bs, rtail = e\<rparr>"

definition rd_return :: "'a \<Rightarrow> 'a rd" where
  "rd_return x r = (Inr x, r)"

definition rd_throw :: "go_error \<Rightarrow> 'a rd" where
  "rd_throw e r = (Inl e, r)"

definition rd_bind :: "'a rd \<Rightarrow> ('a \<Rightarrow> 'b rd) \<Rightarrow> 'b rd" where
  "rd_bind m f r = (case m r of (Inl e, r') \<Rightarrow> (Inl e, r') | (Inr x, r') \<Rightarrow> f x r')"

text \<open>
  \<^verbatim>\<open>io.ReadFull\<close>: all \<open>n\<close> bytes, or the source's error; a partial read that ends with EOF is
  reported as \<open>ErrUnexpectedEOF\<close>. The bytes of a partial read are consumed.
\<close>

definition ReadFull :: "nat \<Rightarrow> bytes rd" where
  "ReadFull n r =
     (if n \<le> length (rbuf r) then (Inr (take n (rbuf r)), r\<lparr>rbuf := drop n (rbuf r)\<rparr>)
      else (Inl (if rtail r = EOF \<and> rbuf r \<noteq> [] then ErrUnexpectedEOF else rtail r),
            r\<lparr>rbuf := []\<rparr>))"

definition read_be :: "nat \<Rightarrow> 'a::len word rd" where
  "read_be n = rd_bind (ReadFull n) (\<lambda>bs. rd_return (get_be bs))"

definition read_le :: "nat \<Rightarrow> 'a::len word rd" where
  "read_le n = rd_bind (ReadFull n) (\<lambda>bs. rd_return (get_le bs))"

definition read_bool :: "bool rd" where
  "read_bool = rd_bind (ReadFull 1) (\<lambda>bs. rd_return (get_bool bs))"

abbreviation read_u8 :: "uint8 rd" where "read_u8 \<equiv> read_be 1"
abbreviation read_u16 :: "uint16 rd" where "read_u16 \<equiv> read_be 2"
abbreviation read_u32 :: "uint32 rd" where "read_u32 \<equiv> read_be 4"
abbreviation read_u64 :: "uint64 rd" where "read_u64 \<equiv> read_be 8"

text \<open>
  A read whose error the caller drops, \<^verbatim>\<open>binary.Read(r, order, &v)\<close> as a statement: the variable
  keeps its value when the read fails.
\<close>

definition read_into :: "'a \<Rightarrow> 'a rd \<Rightarrow> reader \<Rightarrow> 'a \<times> reader" where
  "read_into old m r = (case m r of (Inl e, r') \<Rightarrow> (old, r') | (Inr x, r') \<Rightarrow> (x, r'))"

lemma rd_bind_simps [simp]:
  "m r = (Inl e, r') \<Longrightarrow> rd_bind m f r = (Inl e, r')"
  "m r = (Inr x, r') \<Longrightarrow> rd_bind m f r = f x r'"
  by (simp_all add: rd_bind_def)

lemma rd_return_run [simp]: "rd_return x r = (Inr x, r)"
  by (simp add: rd_return_def)

lemma rd_throw_run [simp]: "rd_throw e r = (Inl e, r)"
  by (simp add: rd_throw_def)

lemma rd_bind_Inr:
  "rd_bind m f r = (Inr y, r'') \<longleftrightarrow> (\<exists>x r'. m r = (Inr x, r') \<and> f x r' = (Inr y, r''))"
  by (auto simp: rd_bind_def split: outcome_splits)

lemma rd_bind_Inl:
  "rd_bind m f r = (Inl e, r'') \<longleftrightarrow>
     m r = (Inl e, r'') \<or> (\<exists>x r'. m r = (Inr x, r') \<and> f x r' = (Inl e, r''))"
  by (auto simp: rd_bind_def split: outcome_splits)

section \<open>What a read may do to its source\<close>

text \<open>
  A read takes a prefix of the bytes and never changes how the source ends; a strict read that
  succeeds takes at least one byte. Termination of the decoding loops rests on these facts.
\<close>

definition advances :: "'a rd \<Rightarrow> bool" where
  "advances m \<longleftrightarrow> (\<forall>r. \<exists>c. rbuf r = c @ rbuf (snd (m r)) \<and> rtail (snd (m r)) = rtail r)"

definition strict_read :: "'a rd \<Rightarrow> bool" where
  "strict_read m \<longleftrightarrow> (\<forall>r x r'. m r = (Inr x, r') \<longrightarrow> length (rbuf r') < length (rbuf r))"

named_theorems read_rules "reads that advance their source"

lemma advancesD: "advances m \<Longrightarrow> m r = (x, r') \<Longrightarrow> \<exists>c. rbuf r = c @ rbuf r' \<and> rtail r' = rtail r"
  unfolding advances_def by (metis snd_conv)

lemma advances_length: "advances m \<Longrightarrow> m r = (x, r') \<Longrightarrow> length (rbuf r') \<le> length (rbuf r)"
  by (drule (1) advancesD) (metis le_add2 length_append)

lemma advances_tail: "advances m \<Longrightarrow> m r = (x, r') \<Longrightarrow> rtail r' = rtail r"
  by (drule (1) advancesD) blast

lemma advances_return [read_rules]: "advances (rd_return x)"
  by (simp add: advances_def)

lemma advances_throw [read_rules]: "advances (rd_throw e)"
  by (simp add: advances_def)

lemma advances_bind [read_rules]:
  assumes "advances m" and "\<And>x. advances (f x)"
  shows "advances (rd_bind m f)"
  unfolding advances_def
proof
  fix r
  obtain y r' where m: "m r = (y, r')" by fastforce
  from advancesD [OF assms(1) m] obtain c where c: "rbuf r = c @ rbuf r'" "rtail r' = rtail r"
    by blast
  show "\<exists>c. rbuf r = c @ rbuf (snd (rd_bind m f r)) \<and> rtail (snd (rd_bind m f r)) = rtail r"
  proof (cases y)
    case (Inl e)
    with m c show ?thesis by auto
  next
    case (Inr x)
    from assms(2) [of x] obtain d where "rbuf r' = d @ rbuf (snd (f x r'))"
      "rtail (snd (f x r')) = rtail r'" unfolding advances_def by blast
    with c m Inr show ?thesis by auto
  qed
qed

lemma advances_ReadFull [read_rules]: "advances (ReadFull n)"
  unfolding advances_def ReadFull_def
  by auto (metis append_take_drop_id)

lemma advances_read_be [read_rules]: "advances (read_be n)"
  unfolding read_be_def by (intro read_rules)

lemma advances_read_le [read_rules]: "advances (read_le n)"
  unfolding read_le_def by (intro read_rules)

lemma advances_read_bool [read_rules]: "advances read_bool"
  unfolding read_bool_def by (intro read_rules)

lemma strict_read_bind:
  assumes "strict_read m" and "advances m" and "\<And>x. advances (f x)"
  shows "strict_read (rd_bind m f)"
  unfolding strict_read_def
proof (intro allI impI)
  fix r y r''
  assume "rd_bind m f r = (Inr y, r'')"
  then obtain x r' where m: "m r = (Inr x, r')" and f: "f x r' = (Inr y, r'')"
    by (auto simp: rd_bind_Inr)
  from assms(1) m have "length (rbuf r') < length (rbuf r)"
    unfolding strict_read_def by blast
  with advances_length [OF assms(3) f] show "length (rbuf r'') < length (rbuf r)" by simp
qed

lemma strict_read_ReadFull: "0 < n \<Longrightarrow> strict_read (ReadFull n)"
  by (auto simp: strict_read_def ReadFull_def split: if_splits)

lemma strict_read_be: "0 < n \<Longrightarrow> strict_read (read_be n)"
  unfolding read_be_def by (intro strict_read_bind strict_read_ReadFull read_rules)

text \<open>A read that makes progress takes a byte of every non-empty source, even when it fails.\<close>

definition progresses :: "'a rd \<Rightarrow> bool" where
  "progresses m \<longleftrightarrow> (\<forall>r. rbuf r \<noteq> [] \<longrightarrow> length (rbuf (snd (m r))) < length (rbuf r))"

lemma progresses_bind:
  assumes "progresses m" and "\<And>x. advances (f x)"
  shows "progresses (rd_bind m f)"
  unfolding progresses_def
proof (intro allI impI)
  fix r :: reader
  assume "rbuf r \<noteq> []"
  obtain y r' where m: "m r = (y, r')" by fastforce
  with assms(1) \<open>rbuf r \<noteq> []\<close> have less: "length (rbuf r') < length (rbuf r)"
    unfolding progresses_def by (metis snd_conv)
  show "length (rbuf (snd (rd_bind m f r))) < length (rbuf r)"
  proof (cases y)
    case (Inl e)
    with m less show ?thesis by simp
  next
    case (Inr x)
    have "length (rbuf (snd (f x r'))) \<le> length (rbuf r')"
      by (rule advances_length [OF assms(2), of x r' "fst (f x r')"]) simp
    with m less Inr show ?thesis by simp
  qed
qed

lemma progresses_ReadFull: "0 < n \<Longrightarrow> progresses (ReadFull n)"
  by (auto simp: progresses_def ReadFull_def)

lemma progresses_read_be: "0 < n \<Longrightarrow> progresses (read_be n)"
  unfolding read_be_def by (intro progresses_bind progresses_ReadFull read_rules)

text \<open>A failing full read of a source that ends with EOF either finds it empty or empties it.\<close>

lemma ReadFull_error:
  "ReadFull n r = (Inl e, r') \<Longrightarrow>
     rbuf r' = [] \<and> length (rbuf r) < n \<and>
     e = (if rtail r = EOF \<and> rbuf r \<noteq> [] then ErrUnexpectedEOF else rtail r)"
  by (auto simp: ReadFull_def split: if_splits)

text \<open>A stable read that succeeds gives the same result when more bytes follow, and leaves these.\<close>

definition stable :: "'a rd \<Rightarrow> bool" where
  "stable m \<longleftrightarrow> (\<forall>r x r' s. m r = (Inr x, r') \<longrightarrow> m (r\<lparr>rbuf := rbuf r @ s\<rparr>) = (Inr x, r'\<lparr>rbuf := rbuf r' @ s\<rparr>))"

lemma stable_return [read_rules]: "stable (rd_return x)"
  by (auto simp: stable_def)

lemma stable_ReadFull [read_rules]: "stable (ReadFull n)"
  by (auto simp: stable_def ReadFull_def split: if_splits)

lemma stable_bind [read_rules]: "stable m \<Longrightarrow> (\<And>x. stable (f x)) \<Longrightarrow> stable (rd_bind m f)"
  unfolding stable_def by (simp add: rd_bind_Inr) blast

lemma stable_read_be [read_rules]: "stable (read_be n)"
  unfolding read_be_def by (intro read_rules)

lemma stable_read_bool [read_rules]: "stable read_bool"
  unfolding read_bool_def by (intro read_rules)

section \<open>Codecs\<close>

text \<open>
  The contract between a writer and the reader of the same format: on the values the format
  can represent (\<open>valid\<close>), reading what was written gives the value back and leaves exactly the
  bytes that follow. Two consequences hold of every such format: it is injective and no
  encoding is a proper prefix of another.
\<close>

locale codec =
  fixes valid :: "'a \<Rightarrow> bool"
    and put :: "'a \<Rightarrow> bytes"
    and get :: "'a rd"
  assumes get_put: "valid x \<Longrightarrow> get (source (put x @ rest) e) = (Inr x, source rest e)"
begin

lemma get_put_all: "valid x \<Longrightarrow> get (source (put x) e) = (Inr x, source [] e)"
  using get_put [of x "[]"] by simp

lemma put_append_inj:
  assumes "valid x" and "valid y" and "put x @ as = put y @ bs"
  shows "x = y \<and> as = bs"
proof -
  have "(Inr x, source as EOF) = get (source (put y @ bs) EOF)"
    using get_put [OF assms(1), of as EOF] assms(3) by simp
  also have "\<dots> = (Inr y, source bs EOF)" by (rule get_put [OF assms(2)])
  finally show ?thesis by simp
qed

lemma prefix_fails:
  assumes "stable get" and "valid x" and "put x = p @ s" and "s \<noteq> []"
  shows "\<exists>e' r'. get (source p e) = (Inl e', r')"
proof -
  have False if "get (source p e) = (Inr y, r')" for y r'
  proof -
    from assms(1) that have "get (source (p @ s) e) = (Inr y, r'\<lparr>rbuf := rbuf r' @ s\<rparr>)"
      unfolding stable_def by fastforce
    with get_put_all [OF assms(2), of e] assms(3) have "rbuf r' @ s = []" by (cases r') simp
    with assms(4) show False by simp
  qed
  then show ?thesis by (cases "get (source p e)"; cases "fst (get (source p e))") auto
qed

lemma put_inj: "valid x \<Longrightarrow> valid y \<Longrightarrow> put x = put y \<Longrightarrow> x = y"
  using put_append_inj [of x y "[]" "[]"] by simp

end

lemma ReadFull_append [simp]:
  "length xs = n \<Longrightarrow> ReadFull n (source (xs @ rest) e) = (Inr xs, source rest e)"
  by (simp add: ReadFull_def)

lemma ReadFull_exact [simp]: "length xs = n \<Longrightarrow> ReadFull n (source xs e) = (Inr xs, source [] e)"
  by (simp add: ReadFull_def)

lemma read_be_append:
  "LENGTH('a::len) = 8 * n \<Longrightarrow>
     read_be n (source (put_be n (w :: 'a word) @ rest) e) = (Inr w, source rest e)"
  by (simp add: read_be_def get_put_be)

lemma read_le_append:
  "LENGTH('a::len) = 8 * n \<Longrightarrow>
     read_le n (source (put_le n (w :: 'a word) @ rest) e) = (Inr w, source rest e)"
  by (simp add: read_le_def get_put_le)

interpretation u8_be: codec "\<lambda>_. True" be8 read_u8
  by unfold_locales (rule read_be_append, simp)

interpretation u16_be: codec "\<lambda>_. True" be16 read_u16
  by unfold_locales (rule read_be_append, simp)

interpretation u32_be: codec "\<lambda>_. True" be32 read_u32
  by unfold_locales (rule read_be_append, simp)

interpretation u64_be: codec "\<lambda>_. True" be64 read_u64
  by unfold_locales (rule read_be_append, simp)

interpretation u16_le: codec "\<lambda>_. True" le16 "read_le 2"
  by unfold_locales (rule read_le_append, simp)

interpretation u32_le: codec "\<lambda>_. True" le32 "read_le 4"
  by unfold_locales (rule read_le_append, simp)

interpretation bool_be: codec "\<lambda>_. True" put_bool read_bool
  by unfold_locales (simp add: read_bool_def)

lemmas field_codecs [wire_simps] =
  u8_be.get_put [OF TrueI] u8_be.get_put [OF TrueI, simplified] u16_be.get_put [OF TrueI] u32_be.get_put [OF TrueI]
  u64_be.get_put [OF TrueI] u16_le.get_put [OF TrueI] u32_le.get_put [OF TrueI]
  bool_be.get_put [OF TrueI]
  u8_be.get_put_all [OF TrueI] u8_be.get_put_all [OF TrueI, simplified] u16_be.get_put_all [OF TrueI] u32_be.get_put_all [OF TrueI]
  u64_be.get_put_all [OF TrueI]

end
