(* ===== verification/Go_Sort.thy ===== *)
theory Go_Sort
  imports Hadock_Prelude
begin

text \<open>
  The parts of package sort the sources use: the binary search \<^verbatim>\<open>sort.Search\<close>, translated
  with its loop, and sorting by a key (\<^verbatim>\<open>sort.Slice\<close> with a comparison of keys). The sources
  look a value up in a slice with \<^verbatim>\<open>sort.Search\<close> and then compare the element found; the
  interface \<open>search_order\<close> says when that test decides membership, for any total order the
  slice is sorted by. It is used with the ascending and with the descending order.
\<close>

function search_loop :: "(nat \<Rightarrow> bool) \<Rightarrow> nat \<Rightarrow> nat \<Rightarrow> nat" where
  "search_loop f i j =
     (if i < j then
        if \<not> f ((i + j) div 2) then search_loop f ((i + j) div 2 + 1) j
        else search_loop f i ((i + j) div 2)
      else i)"
  by pat_completeness auto
termination
  by (relation "measure (\<lambda>(f, i, j). j - i)") auto

definition sort_Search :: "nat \<Rightarrow> (nat \<Rightarrow> bool) \<Rightarrow> nat" where
  "sort_Search n f = search_loop f 0 n"

definition sort_slice :: "('a \<Rightarrow> 'k::linorder) \<Rightarrow> 'a list \<Rightarrow> 'a list" where
  "sort_slice key xs = sort_key key xs"

declare search_loop.simps [simp del]

definition never_turns_false :: "nat \<Rightarrow> (nat \<Rightarrow> bool) \<Rightarrow> bool" where
  "never_turns_false n f \<longleftrightarrow> (\<forall>a b. a \<le> b \<longrightarrow> b < n \<longrightarrow> f a \<longrightarrow> f b)"

definition first_index :: "nat \<Rightarrow> (nat \<Rightarrow> bool) \<Rightarrow> nat \<Rightarrow> bool" where
  "first_index n f r \<longleftrightarrow> r \<le> n \<and> (\<forall>k<r. \<not> f k) \<and> (\<forall>k. r \<le> k \<longrightarrow> k < n \<longrightarrow> f k)"

lemma search_loop_first:
  assumes "never_turns_false n f"
  shows "i \<le> j \<Longrightarrow> j \<le> n \<Longrightarrow> \<forall>k<i. \<not> f k \<Longrightarrow> \<forall>k. j \<le> k \<longrightarrow> k < n \<longrightarrow> f k \<Longrightarrow>
         first_index n f (search_loop f i j)"
  using assms
proof (induction f i j rule: search_loop.induct)
  case (1 f i j)
  let ?h = "(i + j) div 2"
  note eq = search_loop.simps [of f i j]
  note mono = "1.prems"(5) [unfolded never_turns_false_def, rule_format]
  consider (stop) "\<not> i < j" | (left) "i < j" "f ?h" | (right) "i < j" "\<not> f ?h" by blast
  then show ?case
  proof cases
    case stop
    then have "search_loop f i j = i" by (simp add: eq)
    with stop "1.prems" show ?thesis by (simp add: first_index_def)
  next
    case left
    then have "\<forall>k. ?h \<le> k \<longrightarrow> k < n \<longrightarrow> f k" using mono by blast
    with left "1.prems" have "first_index n f (search_loop f i ?h)" by (intro "1.IH"(2)) auto
    with left show ?thesis by (simp add: eq)
  next
    case right
    then have "?h < n" using "1.prems" by auto
    then have "\<forall>k<?h + 1. \<not> f k" using right mono by (metis Suc_eq_plus1 less_Suc_eq_le)
    with right "1.prems" have "first_index n f (search_loop f (?h + 1) j)"
      by (intro "1.IH"(1)) auto
    with right show ?thesis by (simp add: eq)
  qed
qed

text \<open>On a predicate that never turns false again, the search finds the first index that satisfies it.\<close>

lemma sort_Search_first: "never_turns_false n f \<Longrightarrow> first_index n f (sort_Search n f)"
  unfolding sort_Search_def by (rule search_loop_first) auto

text \<open>Whatever the predicate, the index is in range: the callers' later index checks rely on it.\<close>

lemma search_loop_le: "i \<le> j \<Longrightarrow> search_loop f i j \<le> j"
proof (induction f i j rule: search_loop.induct)
  case (1 f i j)
  then show ?case
    by (subst search_loop.simps) (auto elim!: meta_impE intro: order_trans)
qed

lemma sort_Search_le: "sort_Search n f \<le> n"
  by (simp add: sort_Search_def search_loop_le)

text \<open>On a predicate that turns from true to false, the search only finds one of the two ends.\<close>

lemma search_loop_all: "i \<le> j \<Longrightarrow> \<forall>k. i \<le> k \<longrightarrow> k < j \<longrightarrow> f k \<Longrightarrow> search_loop f i j = i"
proof (induction f i j rule: search_loop.induct)
  case (1 f i j)
  then show ?case by (subst search_loop.simps) (auto simp: Let_def)
qed

lemma search_loop_none: "i \<le> j \<Longrightarrow> \<forall>k. i \<le> k \<longrightarrow> k < j \<longrightarrow> \<not> f k \<Longrightarrow> search_loop f i j = j"
proof (induction f i j rule: search_loop.induct)
  case (1 f i j)
  then show ?case by (subst search_loop.simps) (auto simp: Let_def)
qed

lemma sort_Search_backwards:
  assumes "\<forall>a b. a \<le> b \<longrightarrow> b < n \<longrightarrow> f b \<longrightarrow> f a"
  shows "sort_Search n f = (if f (n div 2) \<and> 0 < n then 0 else n)"
proof (cases "n = 0")
  case False
  then have h: "n div 2 < n" by simp
  show ?thesis
  proof (cases "f (n div 2)")
    case True
    then have "search_loop f 0 (n div 2) = 0" using assms h by (intro search_loop_all) (simp, meson less_imp_le)
    then show ?thesis using True False unfolding sort_Search_def by (subst search_loop.simps) (simp add: Let_def)
  next
    case f: False
    then have "search_loop f (n div 2 + 1) n = n" using assms h by (intro search_loop_none) (simp, meson add_leD1)
    then show ?thesis using f False unfolding sort_Search_def by (subst search_loop.simps) (simp add: Let_def)
  qed
qed (simp add: sort_Search_def search_loop.simps)

locale search_order =
  fixes le :: "'a \<Rightarrow> 'a \<Rightarrow> bool"
  assumes le_refl: "le x x"
    and le_trans: "le x y \<Longrightarrow> le y z \<Longrightarrow> le x z"
    and le_antisym: "le x y \<Longrightarrow> le y x \<Longrightarrow> x = y"
begin

text \<open>The test \<^verbatim>\<open>ix < len(xs) && xs[ix] == x\<close> on a sorted slice.\<close>

lemma search_member:
  fixes x :: 'a
  assumes "sorted_wrt le xs"
  defines "ix \<equiv> sort_Search (length xs) (\<lambda>i. le x (xs ! i))"
  shows "(ix < length xs \<and> xs ! ix = x) \<longleftrightarrow> x \<in> set xs"
proof
  assume "x \<in> set xs"
  then obtain k where k: "k < length xs" "xs ! k = x" by (auto simp: in_set_conv_nth)
  have le_nth: "le (xs ! a) (xs ! b)" if "a \<le> b" "b < length xs" for a b
    using that assms(1) by (cases "a = b") (simp_all add: le_refl sorted_wrt_nth_less)
  have "never_turns_false (length xs) (\<lambda>i. le x (xs ! i))"
    unfolding never_turns_false_def using le_nth le_trans by blast
  then have "first_index (length xs) (\<lambda>i. le x (xs ! i)) ix"
    unfolding ix_def by (rule sort_Search_first)
  then have first: "\<forall>k<ix. \<not> le x (xs ! k)"
    and rest: "\<forall>k. ix \<le> k \<longrightarrow> k < length xs \<longrightarrow> le x (xs ! k)"
    unfolding first_index_def by blast+
  have "ix \<le> k" using first k le_refl not_le by blast
  then have "ix < length xs" using k by simp
  moreover from this rest have "le x (xs ! ix)" by simp
  moreover have "le (xs ! ix) x" using le_nth [OF \<open>ix \<le> k\<close>] k by simp
  ultimately show "ix < length xs \<and> xs ! ix = x" using le_antisym by blast
next
  assume "ix < length xs \<and> xs ! ix = x"
  then show "x \<in> set xs" using nth_mem by blast
qed

end

interpretation ascending: search_order "(\<le>) :: 'a::linorder \<Rightarrow> 'a \<Rightarrow> bool"
  by unfold_locales auto

interpretation descending: search_order "(\<ge>) :: 'a::linorder \<Rightarrow> 'a \<Rightarrow> bool"
  by unfold_locales auto

section \<open>Sorting\<close>

lemma mset_sort_slice [simp]: "mset (sort_slice key xs) = mset xs"
  by (simp add: sort_slice_def)

lemma set_sort_slice [simp]: "set (sort_slice key xs) = set xs"
  by (simp add: sort_slice_def)

lemma length_sort_slice [simp]: "length (sort_slice key xs) = length xs"
  by (simp add: sort_slice_def)

lemma sorted_sort_slice: "sorted (map key (sort_slice key xs))"
  by (simp add: sort_slice_def)

lemma sort_slice_sorted: "sorted (map key xs) \<Longrightarrow> sort_slice key xs = xs"
  by (simp add: sort_slice_def sort_key_id_if_sorted)

text \<open>
  \<^verbatim>\<open>sort.Slice\<close> is not stable: with equal keys its result depends on the algorithm. With
  distinct keys every sorting algorithm gives the list \<open>sort_slice\<close> computes.
\<close>

lemma sort_slice_unique:
  assumes "distinct (map key xs)" and "mset ys = mset xs" and "sorted (map key ys)"
  shows "ys = sort_slice key xs"
proof -
  have "mset (map key ys) = mset (map key xs)" using assms(2) by simp
  then have dy: "distinct (map key ys)" using assms(1) mset_eq_imp_distinct_iff by blast
  have "mset (map key (sort_slice key xs)) = mset (map key xs)" by simp
  then have dz: "distinct (map key (sort_slice key xs))"
    using assms(1) mset_eq_imp_distinct_iff by blast
  have "set ys = set xs" using assms(2) by (rule mset_eq_setD)
  then have "set ys = set (sort_slice key xs)" by simp
  moreover have "inj_on key (set ys \<union> set (sort_slice key xs))"
    using dy \<open>set ys = set xs\<close> by (simp add: distinct_map)
  ultimately show ?thesis
    using assms(3) dy dz sorted_sort_slice [of key xs]
    by (intro map_sorted_distinct_set_unique [of key ys "sort_slice key xs"])
qed

end
