(* ===== verification/Proto.thy ===== *)
theory Proto
  imports Go_Reader Go_Sort
begin

text \<open>
  The hadock protocol (\<^verbatim>\<open>src/proto.go\<close>): the packet structure, the encoder, the decoder of
  single and fragmented packets, and the decoding loop that turns a connection into a
  stream of packets. Results are values of the error type; the loop, which may never end on a
  source that keeps failing, is a partial function whose value \<open>None\<close> means that it does not
  return.
\<close>

section \<open>Packets and errors\<close>

definition ErrUnsupportedProtocol :: go_error where
  "ErrUnsupportedProtocol = ErrSentinel ''unsupported protocol''"

definition ErrUnsupportedVMUVersion :: go_error where
  "ErrUnsupportedVMUVersion = ErrSentinel ''unsupported vmu version''"

definition ErrSkip :: go_error where
  "ErrSkip = ErrSentinel ''skip''"

definition Preamble :: uint32 where
  "Preamble = 0xf82e3553"

definition HadockVersion1 :: uint8 where "HadockVersion1 = 0"

definition HadockVersion2 :: uint8 where "HadockVersion2 = 1"

definition OPS :: uint8 where "OPS = 255"

definition TEST :: uint8 where "TEST = 0"

definition SIM1 :: uint8 where "SIM1 = 1"

definition SIM2 :: uint8 where "SIM2 = 2"

record Packet =
  pk_Protocol :: uint8
  pk_Version :: uint8
  pk_Instance :: uint8
  pk_Sequence :: uint16
  pk_Length :: uint32
  pk_Payload :: bytes
  pk_Sum :: uint16
  pk_Curr :: uint16
  pk_Last :: uint16

definition new_Packet :: Packet where
  "new_Packet = \<lparr>pk_Protocol = 0, pk_Version = 0, pk_Instance = 0, pk_Sequence = 0, pk_Length = 0,
     pk_Payload = [], pk_Sum = 0, pk_Curr = 0, pk_Last = 0\<rparr>"

text \<open>
  A \<^verbatim>\<open>Module\<close> processes a packet and may change the state of the world; the composite module of
  \<^verbatim>\<open>hadock.Process\<close> runs all of them and keeps the first error.
\<close>

type_synonym ('p, 's) Module = "uint8 \<Rightarrow> 'p \<Rightarrow> 's \<Rightarrow> go_error option \<times> 's"

fun process_loop :: "('p, 's) Module list \<Rightarrow> uint8 \<Rightarrow> 'p \<Rightarrow> go_error option \<Rightarrow> 's \<Rightarrow> go_error option \<times> 's" where
  "process_loop [] i p err s = (err, s)"
| "process_loop (m # ms) i p err s =
     (let (e, s') = m i p s
      in process_loop ms i p (if err = None \<and> e \<noteq> None then e else err) s')"

definition multiModule_Process :: "('p, 's) Module list \<Rightarrow> ('p, 's) Module" where
  "multiModule_Process ms i p s = process_loop ms i p None s"

section \<open>Encoding\<close>

definition EncodePacket :: "Packet \<Rightarrow> bytes outcome" where
  "EncodePacket p =
     (if pk_Version p \<noteq> HadockVersion1 then Inl (Errorf ''not yet implemented'')
      else Inr (be8 (push_bit 4 (pk_Protocol p) OR pk_Version p) @ be8 (pk_Instance p) @
                be16 (pk_Sequence p) @ be32 (pk_Length p) @ pk_Payload p @ be16 (pk_Sum p)))"

section \<open>Decoding one packet\<close>

definition readPreamble :: "uint16 rd" where
  "readPreamble =
     rd_bind read_u32 (\<lambda>preamble.
       if preamble \<noteq> Preamble then rd_throw ErrSkip else read_u16)"

definition readPacket :: "Packet \<Rightarrow> Packet rd" where
  "readPacket p =
     rd_bind read_u16 (\<lambda>sequence.
     rd_bind read_u32 (\<lambda>len.
     rd_bind (ReadFull (unat len)) (\<lambda>payload.
     rd_bind read_u16 (\<lambda>sum.
       rd_return (p\<lparr>pk_Sequence := sequence, pk_Length := len, pk_Payload := payload, pk_Sum := sum\<rparr>)))))"

definition readFragment :: "Packet \<Rightarrow> (bool \<times> Packet) rd" where
  "readFragment p =
     rd_bind read_u16 (\<lambda>curr.
     rd_bind read_u16 (\<lambda>last.
     rd_bind (readPacket (p\<lparr>pk_Curr := curr, pk_Last := last\<rparr>)) (\<lambda>v.
       rd_return (pk_Curr v = pk_Last v, v))))"

lemma advances_readPreamble [read_rules]: "advances readPreamble"
  unfolding readPreamble_def by (auto intro!: read_rules)

lemma advances_readPacket [read_rules]: "advances (readPacket p)"
  unfolding readPacket_def by (intro read_rules)

lemma advances_readFragment [read_rules]: "advances (readFragment p)"
  unfolding readFragment_def by (intro read_rules)

lemma strict_readPreamble: "strict_read readPreamble"
  unfolding readPreamble_def by (rule strict_read_bind) (auto intro!: strict_read_be read_rules)

text \<open>The loop over the fragments of one packet, up to the fragment whose number is the last one.\<close>

function readFragments :: "uint16 \<Rightarrow> Packet list \<Rightarrow> Packet list rd" where
  "readFragments prefix ps r =
     (case readFragment new_Packet r of
        (Inl e, r') \<Rightarrow> (Inl e, r')
      | (Inr (final, v), r') \<Rightarrow>
          if final then (Inr (ps @ [v]), r')
          else (case readPreamble r' of
                  (Inl e, r'') \<Rightarrow> (Inl e, r'')
                | (Inr x, r'') \<Rightarrow>
                    if x \<noteq> prefix
                    then (Inl (Errorf ''version mismatched: expected: %x, got %x''), r'')
                    else readFragments prefix (ps @ [v]) r''))"
  by pat_completeness auto
termination
proof (relation "measure (\<lambda>(prefix, ps, r). length (rbuf r))", goal_cases)
  case 1
  show ?case by simp
next
  case (2 prefix ps r x r' y final v z r'' w)
  then have "readFragment new_Packet r = (Inr (final, v), r')" "readPreamble r' = (Inr w, r'')"
    by simp_all
  then have "length (rbuf r') \<le> length (rbuf r)" "length (rbuf r'') < length (rbuf r')"
    using advances_length [OF advances_readFragment] strict_readPreamble
    unfolding strict_read_def by blast+
  then show ?case by simp
qed

declare readFragments.simps [simp del]

definition DecodePacket :: "Packet rd" where
  "DecodePacket =
     rd_bind readPreamble (\<lambda>prefix.
       let p = new_Packet\<lparr>pk_Protocol := ucast (drop_bit 12 prefix),
                          pk_Version := ucast (drop_bit 8 prefix) AND 0x0F,
                          pk_Instance := ucast (prefix AND 0xFF)\<rparr>
       in if pk_Protocol p = HadockVersion1 then readPacket p
          else if pk_Protocol p = HadockVersion2 then
            rd_bind (readFragments prefix []) (\<lambda>ps.
              rd_return (p\<lparr>pk_Sequence := pk_Sequence (last ps), pk_Length := pk_Length (last ps),
                           pk_Payload := concat (map pk_Payload (sort_slice pk_Curr ps))\<rparr>))
          else rd_throw ErrUnsupportedProtocol)"

section \<open>The decoding loop\<close>

text \<open>
  \<open>instance_accepted\<close> is the filter on the sorted list of instances. The checksum of a
  packet is compared with the one received, but both outcomes of that comparison go on in the
  same way, so it leaves no trace in the model. \<open>decode_loop\<close> returns the packets sent on the
  channel before it is closed.
\<close>

definition instance_accepted :: "uint8 list \<Rightarrow> uint8 \<Rightarrow> bool" where
  "instance_accepted is i =
     (let ix = sort_Search (length is) (\<lambda>k. i \<le> is ! k)
      in \<not> (length is > 0 \<and> (ix \<ge> length is \<or> is ! ix \<noteq> i)))"

definition ends_stream :: "go_error \<Rightarrow> bool" where
  "ends_stream e \<longleftrightarrow> e = EOF \<or> e = ErrUnsupportedProtocol \<or> e = ErrUnsupportedVMUVersion"

partial_function (option) decode_loop :: "uint8 list \<Rightarrow> reader \<Rightarrow> Packet list \<Rightarrow> Packet list option" where
  "decode_loop is r q =
     (case DecodePacket r of
        (Inr p, r') \<Rightarrow>
          if \<not> instance_accepted is (pk_Instance p) then decode_loop is r' q
          else decode_loop is r' (q @ [p])
      | (Inl e, r') \<Rightarrow>
          if ends_stream e then Some q else decode_loop is r' q)"

definition DecodeBinaryPackets :: "reader \<Rightarrow> uint8 list \<Rightarrow> Packet list option" where
  "DecodeBinaryPackets r is = decode_loop (sort_slice id is) r []"

section \<open>The wire format of an unfragmented packet\<close>

text \<open>
  \<open>packet_prefix\<close> is the 16-bit word after the preamble (protocol, VMU version, instance), \<open>frame\<close>
  the bytes of a packet of protocol version 1. A packet fits the format when the protocol is 1
  (encoded 0), the version is a 4-bit number, the length is that of the payload and the
  fragment counters are unused.
\<close>

definition packet_prefix :: "Packet \<Rightarrow> uint16" where
  "packet_prefix p = push_bit 12 (ucast (pk_Protocol p)) OR push_bit 8 (ucast (pk_Version p)) OR ucast (pk_Instance p)"

definition frame :: "Packet \<Rightarrow> bytes" where
  "frame p = be32 Preamble @ be16 (packet_prefix p) @ be16 (pk_Sequence p) @ be32 (pk_Length p) @
     pk_Payload p @ be16 (pk_Sum p)"

definition fits_v1 :: "Packet \<Rightarrow> bool" where
  "fits_v1 p \<longleftrightarrow> pk_Protocol p = HadockVersion1 \<and> unat (pk_Version p) < 16 \<and>
     unat (pk_Length p) = length (pk_Payload p) \<and> pk_Curr p = 0 \<and> pk_Last p = 0"

lemma small_byte_bits: "unat (b :: uint8) < 16 \<Longrightarrow> bit b n \<Longrightarrow> n < 4"
proof -
  assume "unat b < 16" and n: "bit b n"
  then have "take_bit 4 (unat b) = unat b" by (simp add: take_bit_nat_eq_self)
  then have "bit (unat b) n = bit (take_bit 4 (unat b)) n" by simp
  moreover have "bit (unat b) n" using n by (simp add: bit_unsigned_iff bit_imp_le_length)
  ultimately show "n < 4" by (simp add: bit_take_bit_iff)
qed

lemma prefix_protocol:
  fixes v proto i :: uint8
  assumes "unat v < 16" and "unat proto < 16"
  shows "(ucast (drop_bit 12 (push_bit 12 (ucast proto) OR push_bit 8 (ucast v) OR ucast i :: uint16)) :: uint8) = proto"
  by (rule bit_word_eqI)
     (use assms in \<open>auto simp: bit_simps dest: small_byte_bits bit_imp_le_length\<close>)

lemma prefix_version:
  fixes v proto i :: uint8
  assumes "unat v < 16"
  shows "ucast (drop_bit 8 (push_bit 12 (ucast proto) OR push_bit 8 (ucast v) OR ucast i :: uint16)) AND 0x0F = v"
proof -
  have mask: "x AND 0x0F = take_bit 4 x" for x :: uint8
    by (simp add: take_bit_eq_mask mask_eq_exp_minus_1)
  show ?thesis
    unfolding mask
    by (rule bit_word_eqI)
       (use assms in \<open>auto simp: bit_simps dest: small_byte_bits bit_imp_le_length\<close>)
qed

lemma prefix_instance:
  fixes v proto i :: uint8
  shows "ucast ((push_bit 12 (ucast proto) OR push_bit 8 (ucast v) OR ucast i :: uint16) AND 0xFF) = i"
proof -
  have mask: "x AND 0xFF = take_bit 8 x" for x :: uint16
    by (simp add: take_bit_eq_mask mask_eq_exp_minus_1)
  show ?thesis
    unfolding mask
    by (rule bit_word_eqI) (auto simp: bit_simps dest: bit_imp_le_length)
qed

lemma readPreamble_Preamble [simp]:
  "readPreamble (source (be32 Preamble @ be16 x @ rest) e) = (Inr x, source rest e)"
  by (simp add: readPreamble_def wire_simps)

lemma readPacket_bytes:
  assumes "unat len = length payload"
  shows "readPacket p (source (be16 s @ be32 len @ payload @ be16 c @ rest) e) =
    (Inr (p\<lparr>pk_Sequence := s, pk_Length := len, pk_Payload := payload, pk_Sum := c\<rparr>), source rest e)"
  using assms by (simp add: readPacket_def wire_simps)

lemma DecodePacket_frame:
  assumes "fits_v1 p"
  shows "DecodePacket (source (frame p @ rest) e) = (Inr p, source rest e)"
proof -
  have fits: "pk_Protocol p = 0" "unat (pk_Version p) < 16"
    "unat (pk_Length p) = length (pk_Payload p)" "pk_Curr p = 0" "pk_Last p = 0"
    using assms by (auto simp: fits_v1_def HadockVersion1_def)
  let ?q = "new_Packet\<lparr>pk_Protocol := 0, pk_Version := pk_Version p, pk_Instance := pk_Instance p\<rparr>"
  have "DecodePacket (source (frame p @ rest) e) =
      readPacket ?q (source (be16 (pk_Sequence p) @ be32 (pk_Length p) @ pk_Payload p @ be16 (pk_Sum p) @ rest) e)"
    using fits prefix_protocol [of "pk_Version p" "pk_Protocol p" "pk_Instance p"]
      prefix_version [of "pk_Version p" "pk_Protocol p" "pk_Instance p"]
      prefix_instance [of "pk_Protocol p" "pk_Version p" "pk_Instance p"]
    by (simp add: DecodePacket_def frame_def packet_prefix_def Let_def HadockVersion1_def)
  also have "\<dots> = (Inr p, source rest e)"
    using fits by (simp add: readPacket_bytes new_Packet_def)
  finally show ?thesis .
qed

interpretation packet_v1: codec fits_v1 frame DecodePacket
  by unfold_locales (rule DecodePacket_frame)

section \<open>Progress of the decoder\<close>

lemma advances_readFragments [read_rules]: "advances (readFragments prefix ps)"
  unfolding advances_def
proof
  fix r
  show "\<exists>c. rbuf r = c @ rbuf (snd (readFragments prefix ps r)) \<and>
            rtail (snd (readFragments prefix ps r)) = rtail r"
  proof (induction prefix ps r rule: readFragments.induct)
    case (1 prefix ps r)
    obtain y r' where y: "readFragment new_Packet r = (y, r')" by fastforce
    from advancesD [OF advances_readFragment y] obtain c where
      c: "rbuf r = c @ rbuf r'" "rtail r' = rtail r" by blast
    obtain z r'' where z: "readPreamble r' = (z, r'')" by fastforce
    from advancesD [OF advances_readPreamble z] obtain d where
      d: "rbuf r' = d @ rbuf r''" "rtail r'' = rtail r'" by blast
    consider (err) er where "y = Inl er" | (fin) v where "y = Inr (True, v)"
      | (more) v where "y = Inr (False, v)" by (cases y) auto
    then show ?case
    proof cases
      case more
      have "\<exists>c. rbuf r'' = c @ rbuf (snd (readFragments prefix (ps @ [v]) r'')) \<and>
               rtail (snd (readFragments prefix (ps @ [v]) r'')) = rtail r''" if "z = Inr prefix"
        using "1.IH" [of y r' "(False, v)" False v z r'' prefix] y z more that by simp
      then show ?thesis
        using y z c d more by (cases z) (auto simp: readFragments.simps [of prefix ps r])
    qed (use y c in \<open>auto simp: readFragments.simps [of prefix ps r]\<close>)
  qed
qed

lemma advances_DecodePacket [read_rules]: "advances DecodePacket"
  unfolding DecodePacket_def Let_def by (auto intro!: read_rules)

lemma progresses_DecodePacket: "progresses DecodePacket"
proof -
  have "progresses readPreamble"
    unfolding readPreamble_def by (rule progresses_bind) (auto intro!: progresses_read_be read_rules)
  then show ?thesis
    unfolding DecodePacket_def Let_def by (rule progresses_bind) (auto intro!: read_rules)
qed

lemma DecodePacket_empty: "DecodePacket (source [] e) = (Inl e, source [] e)"
  by (simp add: DecodePacket_def readPreamble_def read_be_def ReadFull_def rd_bind_def)

lemma Preamble_bytes: "be32 Preamble = [0xf8, 0x2e, 0x35, 0x53]"
  by (simp add: put_be_bytes Preamble_def)

lemma DecodePacket_skip:
  assumes "length g = 4" and "g \<noteq> be32 Preamble"
  shows "DecodePacket (source (g @ rest) e) = (Inl ErrSkip, source rest e)"
proof -
  have "get_be g \<noteq> Preamble" using assms put_get_be [where 'a = 32 and n = 4 and bs = g] by auto
  then show ?thesis
    using assms by (simp add: DecodePacket_def readPreamble_def read_be_def rd_bind_def)
qed

section \<open>The decoding loop on whole streams\<close>

lemma instance_accepted_sorted:
  "instance_accepted (sort_slice id is) i \<longleftrightarrow> is = [] \<or> i \<in> set is"
proof -
  let ?s = "sort_slice id is"
  have "sorted_wrt (\<le>) ?s" using sorted_sort_slice [of id "is"] by simp
  from ascending.search_member [OF this, of i] show ?thesis
    by (auto simp: instance_accepted_def Let_def not_le)
qed

lemma decode_loop_returns:
  "rtail r = EOF \<Longrightarrow>
   \<exists>ps. decode_loop js r q = Some (q @ ps) \<and> (\<forall>p\<in>set ps. instance_accepted js (pk_Instance p))"
proof (induction "length (rbuf r)" arbitrary: r q rule: less_induct)
  case less
  obtain y r' where y: "DecodePacket r = (y, r')" by fastforce
  have tail: "rtail r' = EOF" using advances_tail [OF advances_DecodePacket y] less.prems by simp
  show ?case
  proof (cases "rbuf r = []")
    case True
    then have "r = source [] EOF" using less.prems by simp
    then show ?thesis
      by (subst decode_loop.simps) (simp add: DecodePacket_empty ends_stream_def)
  next
    case False
    then have "length (rbuf r') < length (rbuf r)"
      using y progresses_DecodePacket unfolding progresses_def by (metis snd_conv)
    note IH = less.hyps [OF this tail]
    show ?thesis
    proof (cases y)
      case (Inl er)
      with IH [of q] show ?thesis by (subst decode_loop.simps) (auto simp: y)
    next
      case (Inr p)
      obtain ps where "decode_loop js r' (q @ [p]) = Some ((q @ [p]) @ ps)"
        "\<forall>p\<in>set ps. instance_accepted js (pk_Instance p)" using IH [of "q @ [p]"] by blast
      with Inr IH [of q] show ?thesis
        by (subst decode_loop.simps) (auto simp: y intro: exI [of _ "p # ps"])
    qed
  qed
qed

lemma decode_loop_stuck:
  assumes "\<not> ends_stream e"
  shows "decode_loop is (source [] e) q = None"
proof (rule ccontr)
  assume "decode_loop is (source [] e) q \<noteq> None"
  then obtain out where ret: "decode_loop is (source [] e) q = Some out" by blast
  have "source [] e \<noteq> source [] e"
  proof (rule decode_loop.raw_induct [where P = "\<lambda>js r q out. r \<noteq> source [] e", OF _ ret])
    fix loop js r q out
    assume IH: "\<And>js r q out. loop js r q = Some out \<Longrightarrow> r \<noteq> source [] e"
      and eq: "(case DecodePacket r of
          (Inl e, r') \<Rightarrow> if ends_stream e then Some q else loop js r' q
        | (Inr p, r') \<Rightarrow>
            if \<not> instance_accepted js (pk_Instance p) then loop js r' q
            else loop js r' (q @ [p])) = Some out"
    show "r \<noteq> source [] e"
    proof
      assume "r = source [] e"
      with eq assms have "loop js (source [] e) q = Some out" by (simp add: DecodePacket_empty)
      from IH [OF this] show False by simp
    qed
  qed
  then show False by simp
qed

lemma decode_loop_frames:
  assumes "\<forall>p\<in>set ps. fits_v1 p"
  shows "decode_loop is (source (concat (map frame ps) @ rest) e) q =
         decode_loop is (source rest e) (q @ filter (\<lambda>p. instance_accepted is (pk_Instance p)) ps)"
  using assms
proof (induction ps arbitrary: q)
  case (Cons p ps)
  then have "DecodePacket (source (concat (map frame (p # ps)) @ rest) e) =
      (Inr p, source (concat (map frame ps) @ rest) e)"
    using packet_v1.get_put [of p "concat (map frame ps) @ rest" e] by simp
  then show ?case
    using Cons by (subst decode_loop.simps) simp
qed simp

lemma decode_loop_garbage:
  assumes "\<forall>g\<in>set gs. length g = 4 \<and> g \<noteq> be32 Preamble"
  shows "decode_loop is (source (concat gs @ rest) e) q = decode_loop is (source rest e) q"
  using assms
proof (induction gs)
  case (Cons g gs)
  then have "DecodePacket (source (concat (g # gs) @ rest) e) =
      (Inl ErrSkip, source (concat gs @ rest) e)"
    using DecodePacket_skip [of g "concat gs @ rest" e] by simp
  moreover have "\<not> ends_stream ErrSkip"
    by (simp add: ends_stream_def ErrSkip_def ErrUnsupportedProtocol_def ErrUnsupportedVMUVersion_def)
  ultimately show ?case
    using Cons by (subst decode_loop.simps) simp
qed simp

section \<open>Fragmented packets\<close>

text \<open>
  \<open>frag_body\<close> is what follows the prefix in a fragment. A run of fragments of which only the last
  one carries its own number as the last number is read as one packet.
\<close>

definition frag_body :: "Packet \<Rightarrow> bytes" where
  "frag_body v = be16 (pk_Curr v) @ be16 (pk_Last v) @ be16 (pk_Sequence v) @ be32 (pk_Length v) @
     pk_Payload v @ be16 (pk_Sum v)"

definition frag_frame :: "uint16 \<Rightarrow> Packet \<Rightarrow> bytes" where
  "frag_frame prefix v = be32 Preamble @ be16 prefix @ frag_body v"

definition fits_frag :: "Packet \<Rightarrow> bool" where
  "fits_frag v \<longleftrightarrow> pk_Protocol v = 0 \<and> pk_Version v = 0 \<and> pk_Instance v = 0 \<and>
     unat (pk_Length v) = length (pk_Payload v)"

definition only_last_final :: "Packet list \<Rightarrow> bool" where
  "only_last_final vs \<longleftrightarrow> vs \<noteq> [] \<and> (\<forall>v\<in>set (butlast vs). pk_Curr v \<noteq> pk_Last v) \<and>
     pk_Curr (last vs) = pk_Last (last vs)"

lemma readFragment_bytes:
  "fits_frag v \<Longrightarrow>
   readFragment new_Packet (source (frag_body v @ rest) e) = (Inr (pk_Curr v = pk_Last v, v), source rest e)"
  by (simp add: readFragment_def frag_body_def wire_simps readPacket_bytes fits_frag_def new_Packet_def)

lemma readFragments_run:
  assumes "only_last_final (v # vs)" and "\<forall>x\<in>set (v # vs). fits_frag x"
  shows "readFragments prefix ps
      (source (frag_body v @ concat (map (frag_frame prefix) vs) @ rest) e) =
      (Inr (ps @ v # vs), source rest e)"
  using assms
proof (induction vs arbitrary: v ps)
  case Nil
  then have "pk_Curr v = pk_Last v" by (simp add: only_last_final_def)
  with Nil show ?case
    by (simp add: readFragments.simps readFragment_bytes)
next
  case (Cons w vs)
  then have "pk_Curr v \<noteq> pk_Last v" and "only_last_final (w # vs)"
    by (auto simp: only_last_final_def)
  with Cons.IH [of w "ps @ [v]"] Cons.prems(2) show ?case
    by (simp add: readFragments.simps [of prefix ps] readFragment_bytes frag_frame_def)
qed

lemma DecodePacket_fragments:
  assumes run: "only_last_final vs" and fits: "\<forall>v\<in>set vs. fits_frag v"
    and prefix: "prefix = push_bit 12 (ucast HadockVersion2) OR push_bit 8 (ucast t) OR ucast m"
    and t: "unat t < 16"
  shows "DecodePacket (source (concat (map (frag_frame prefix) vs) @ rest) e) =
    (Inr (new_Packet\<lparr>pk_Protocol := HadockVersion2, pk_Version := t, pk_Instance := m,
        pk_Sequence := pk_Sequence (last vs), pk_Length := pk_Length (last vs),
        pk_Payload := concat (map pk_Payload (sort_slice pk_Curr vs))\<rparr>), source rest e)"
proof -
  obtain v ws where vs: "vs = v # ws" using run by (cases vs) (auto simp: only_last_final_def)
  have "readFragments prefix [] (source (frag_body v @ concat (map (frag_frame prefix) ws) @ rest) e) =
      (Inr vs, source rest e)"
    using readFragments_run [of v ws prefix "[]" rest e] run fits vs by simp
  moreover have "readPreamble (source (concat (map (frag_frame prefix) vs) @ rest) e) =
      (Inr prefix, source (frag_body v @ concat (map (frag_frame prefix) ws) @ rest) e)"
    by (simp add: vs frag_frame_def)
  ultimately show ?thesis
    using prefix_protocol [OF t, of HadockVersion2 m] prefix_version [OF t, of HadockVersion2 m]
      prefix_instance [of HadockVersion2 t m]
    by (simp add: DecodePacket_def Let_def prefix HadockVersion1_def HadockVersion2_def)
qed

section \<open>Composite modules\<close>

text \<open>
  The reference: every handler runs once, in order, on the state the previous one left; the
  errors are collected.
\<close>

fun run_all :: "('s \<Rightarrow> go_error option \<times> 's) list \<Rightarrow> 's \<Rightarrow> go_error option list \<times> 's" where
  "run_all [] s = ([], s)"
| "run_all (h # hs) s = (let (e, s') = h s; (es, s'') = run_all hs s' in (e # es, s''))"

fun first_error :: "go_error option list \<Rightarrow> go_error option" where
  "first_error [] = None"
| "first_error (None # es) = first_error es"
| "first_error (Some e # es) = Some e"

lemma process_loop_run_all:
  "process_loop ms i p err s =
   (let (es, s') = run_all (map (\<lambda>m. m i p) ms) s in (if err = None then first_error es else err, s'))"
proof (induction ms arbitrary: err s)
  case (Cons m ms)
  obtain e s' where m: "m i p s = (e, s')" by fastforce
  show ?case
    using Cons.IH [of _ s'] m by (cases e) (auto simp: Let_def split: prod.splits)
qed simp

section \<open>Properties\<close>

text \<open>
  C7. A packet of protocol 1 written by \<^verbatim>\<open>EncodePacket\<close> is read back by \<^verbatim>\<open>DecodePacket\<close>, whatever
  follows it, once the preamble is put in front; the bytes \<^verbatim>\<open>EncodePacket\<close> itself returns lack the
  preamble, and \<^verbatim>\<open>DecodePacket\<close> always skips them.
\<close>

theorem EncodePacket_roundtrip:
  assumes "fits_v1 p" and "pk_Version p = HadockVersion1"
  shows "\<exists>bs. EncodePacket p = Inr bs \<and>
    DecodePacket (source (be32 Preamble @ bs @ rest) e) = (Inr p, source rest e) \<and>
    DecodePacket (source (bs @ rest) e) = (Inl ErrSkip, source (drop 4 (bs @ rest)) e)"
proof -
  have zero: "pk_Protocol p = 0" "pk_Version p = 0"
    using assms by (simp_all add: fits_v1_def HadockVersion1_def)
  define bs where "bs = be8 0 @ be8 (pk_Instance p) @ be16 (pk_Sequence p) @ be32 (pk_Length p) @
    pk_Payload p @ be16 (pk_Sum p)"
  have enc: "EncodePacket p = Inr bs" by (simp add: EncodePacket_def zero HadockVersion1_def bs_def)
  have "be16 (ucast (pk_Instance p)) = be8 0 @ be8 (pk_Instance p)"
    using unat_byte [of "pk_Instance p"]
    by (simp add: put_be_bytes unsigned_ucast_eq take_bit_nat_eq_self)
  then have "frame p = be32 Preamble @ bs" by (simp add: frame_def packet_prefix_def zero bs_def)
  then have dec: "DecodePacket (source (be32 Preamble @ bs @ rest) e) = (Inr p, source rest e)"
    using packet_v1.get_put [OF assms(1), of rest e] by simp
  have "take 4 bs \<noteq> be32 Preamble"
    by (simp add: bs_def put_be_bytes Preamble_def)
  then have "DecodePacket (source (take 4 bs @ drop 4 bs @ rest) e) = (Inl ErrSkip, source (drop 4 bs @ rest) e)"
    by (intro DecodePacket_skip) (simp_all add: bs_def)
  then have "DecodePacket (source (bs @ rest) e) = (Inl ErrSkip, source (drop 4 (bs @ rest)) e)"
    by (simp flip: append_assoc) (simp add: bs_def)
  with enc dec show ?thesis by blast
qed

definition sample_packet :: Packet where
  "sample_packet = new_Packet\<lparr>pk_Instance := 255, pk_Sequence := 513, pk_Length := 1, pk_Payload := [7]\<rparr>"

lemma sample_packet_fits: "fits_v1 sample_packet"
  by (simp add: fits_v1_def sample_packet_def new_Packet_def HadockVersion1_def)

theorem EncodePacket_roundtrip_witness:
  "\<exists>bs. EncodePacket sample_packet = Inr bs \<and>
    DecodePacket (source (be32 Preamble @ bs @ [1, 2]) EOF) = (Inr sample_packet, source [1, 2] EOF) \<and>
    DecodePacket (source (bs @ [1, 2]) EOF) = (Inl ErrSkip, source (drop 4 (bs @ [1, 2])) EOF)"
  by (rule EncodePacket_roundtrip [OF sample_packet_fits])
     (simp add: sample_packet_def new_Packet_def HadockVersion1_def)

text \<open>
  C4. On every source that ends with EOF, whatever bytes it holds, the decoding loop of
  \<^verbatim>\<open>DecodeBinaryPackets\<close> returns (its channel is closed), and all the packets it delivered belong
  to one of the requested instances when instances were requested.
\<close>

theorem DecodeBinaryPackets_returns:
  assumes "rtail r = EOF"
  shows "\<exists>ps. DecodeBinaryPackets r is = Some ps \<and> (\<forall>p\<in>set ps. is = [] \<or> pk_Instance p \<in> set is)"
  using decode_loop_returns [OF assms, of "sort_slice id is" "[]"]
  by (simp add: DecodeBinaryPackets_def instance_accepted_sorted)

theorem DecodeBinaryPackets_returns_witness:
  "\<exists>ps. DecodeBinaryPackets (source [1, 2, 3] EOF) [255] = Some ps \<and>
        (\<forall>p\<in>set ps. [255] = ([] :: uint8 list) \<or> pk_Instance p \<in> set [255])"
  by (rule DecodeBinaryPackets_returns) simp

text \<open>
  C5. A stream of well-formed packets is decoded in order, each packet once, filtered by the
  requested instances; garbage in front of it is skipped when its length is a multiple of four
  and no aligned group of four bytes is the preamble.
\<close>

theorem DecodeBinaryPackets_stream:
  assumes "\<forall>g\<in>set gs. length g = 4 \<and> g \<noteq> be32 Preamble" and "\<forall>p\<in>set ps. fits_v1 p"
  shows "DecodeBinaryPackets (source (concat gs @ concat (map frame ps)) EOF) is =
         Some (filter (\<lambda>p. is = [] \<or> pk_Instance p \<in> set is) ps)"
proof -
  have "decode_loop (sort_slice id is) (source [] EOF) q = Some q" for q
    by (subst decode_loop.simps) (simp add: DecodePacket_empty ends_stream_def)
  then show ?thesis
    using decode_loop_garbage [OF assms(1), of "sort_slice id is" "concat (map frame ps)" EOF "[]"]
      decode_loop_frames [OF assms(2), of "sort_slice id is" "[]" EOF "[]"]
    by (simp add: DecodeBinaryPackets_def instance_accepted_sorted)
qed

theorem DecodeBinaryPackets_stream_witness:
  "DecodeBinaryPackets (source (concat [[1, 2, 3, 4]] @ concat (map frame [sample_packet])) EOF) [] =
   Some (filter (\<lambda>p. [] = ([] :: uint8 list) \<or> pk_Instance p \<in> set []) [sample_packet])"
  by (rule DecodeBinaryPackets_stream)
     (simp_all add: sample_packet_fits Preamble_bytes)

text \<open>
  One stray byte in front of a packet loses it: the decoder resynchronises in steps of four
  bytes only, so it never looks for the preamble at the offset where it stands. Here for
  every packet with a payload of one byte and every stray byte.
\<close>

theorem misaligned_packet_lost:
  assumes "fits_v1 p" and "length (pk_Payload p) = 1"
  shows "DecodeBinaryPackets (source (b # frame p) EOF) is = Some []"
proof -
  obtain x where x: "pk_Payload p = [x]" using assms(2) by (auto simp: length_Suc_conv)
  have len: "pk_Length p = 1" using assms x by (simp add: fits_v1_def word_unat_eq_iff)
  define gs where "gs = [[b, 0xf8, 0x2e, 0x35], 0x53 # be16 (packet_prefix p) @ take 1 (be16 (pk_Sequence p)),
    drop 1 (be16 (pk_Sequence p)) @ [0, 0, 0], 1 # x # be16 (pk_Sum p)]"
  have "b # frame p = concat gs"
    by (simp add: frame_def gs_def x len Preamble_bytes) (simp add: put_be_bytes)
  moreover have "\<forall>g\<in>set gs. length g = 4 \<and> g \<noteq> be32 Preamble"
    by (simp add: gs_def Preamble_bytes)
  ultimately show ?thesis
    using decode_loop_garbage [of gs "sort_slice id is" "[]" EOF "[]"]
    by (simp add: DecodeBinaryPackets_def)
       (subst decode_loop.simps, simp add: DecodePacket_empty ends_stream_def)
qed

theorem misaligned_packet_lost_witness:
  "DecodeBinaryPackets (source (9 # frame sample_packet) EOF) [255] = Some []"
  by (rule misaligned_packet_lost [OF sample_packet_fits]) (simp add: sample_packet_def)

text \<open>
  On a source that keeps failing with an error other than EOF (a connection closed on this
  side, say), the loop logs the error and tries again for ever: after the packets it
  received it never returns.
\<close>

theorem DecodeBinaryPackets_spins:
  assumes "\<not> ends_stream e" and "\<forall>p\<in>set ps. fits_v1 p"
  shows "DecodeBinaryPackets (source (concat (map frame ps)) e) is = None"
  using decode_loop_frames [OF assms(2), of "sort_slice id is" "[]" e "[]"] decode_loop_stuck [OF assms(1)]
  by (simp add: DecodeBinaryPackets_def)

theorem DecodeBinaryPackets_spins_witness:
  "DecodeBinaryPackets (source (concat (map frame [sample_packet])) (ErrIO 9)) [] = None"
  by (rule DecodeBinaryPackets_spins)
     (simp_all add: sample_packet_fits ends_stream_def ErrUnsupportedProtocol_def ErrUnsupportedVMUVersion_def)

text \<open>
  The composite module runs every module once, in order, each on the state its predecessor
  left, even after a failure, and returns the first error.
\<close>

theorem multiModule_Process_first_error:
  "multiModule_Process ms i p s =
   (let (es, s') = run_all (map (\<lambda>m. m i p) ms) s in (first_error es, s'))"
  by (simp add: multiModule_Process_def process_loop_run_all)

end
