(* ===== verification/Go_Scanner.thy ===== *)
theory Go_Scanner
  imports Hadock_Prelude
begin

text \<open>
  \<^verbatim>\<open>bufio.Scanner\<close> with a split function of the program. The interface \<open>framing\<close> states when a split function
  and a format of records belong together; then a file of records is cut into their
  bodies, whatever the sizes of the reads.
\<close>

datatype split_result = Need | Token nat bytes | Final nat bytes | SplitPanic

text \<open>
  \<^verbatim>\<open>bufio.Scanner\<close> with a buffer of \<open>limit\<close> bytes: it splits what is buffered as long as a token
  comes out, reads the next chunk of the file otherwise, and splits once more at the end of the
  file. The result is the list of tokens and how the scan ended.
\<close>

datatype scan_end = ScanDone | ErrTooLong | ScanPanic

definition chunk_weight :: "bytes list \<Rightarrow> nat" where
  "chunk_weight cs = length (concat cs) + length cs"

function scan :: "(bytes \<Rightarrow> bool \<Rightarrow> split_result) \<Rightarrow> nat \<Rightarrow> bytes \<Rightarrow> bytes list \<Rightarrow> bytes list \<times> scan_end" where
  "scan split limit buf chunks =
     (case (if buf = [] then Need else split buf False) of
        Token n tok \<Rightarrow>
          if n = 0 then ([tok], ScanPanic)
          else (let (ts, e) = scan split limit (drop n buf) chunks in (tok # ts, e))
      | Final n tok \<Rightarrow> ([tok], ScanDone)
      | SplitPanic \<Rightarrow> ([], ScanPanic)
      | Need \<Rightarrow>
          if length buf \<ge> limit then ([], ErrTooLong)
          else (case chunks of
                  [] \<Rightarrow>
                    (case split buf True of
                       Final n tok \<Rightarrow> ([tok], ScanDone)
                     | Token n tok \<Rightarrow> ([tok], ScanDone)
                     | Need \<Rightarrow> ([], ScanDone)
                     | SplitPanic \<Rightarrow> ([], ScanPanic))
                | c # cs \<Rightarrow>
                    let n = limit - length buf
                    in scan split limit (buf @ take n c) (if drop n c = [] then cs else drop n c # cs)))"
  by pat_completeness auto
termination
  by (relation "measures [\<lambda>(sp, l, buf, cs). chunk_weight cs, \<lambda>(sp, l, buf, cs). length buf]")
     (auto simp: chunk_weight_def not_le split: if_splits)

declare scan.simps [simp del]

section \<open>Files of records\<close>

lemma scan_read:
  assumes "(if buf = [] then Need else split buf False) = Need" and "length buf < limit"
  shows "scan split limit buf (c # cs) =
    scan split limit (buf @ take (limit - length buf) c)
      (if drop (limit - length buf) c = [] then cs else drop (limit - length buf) c # cs)"
  using assms by (subst scan.simps) (simp add: Let_def)

lemma append_take_drop_id_assoc: "take n xs @ drop n xs @ ys = xs @ ys"
  by (simp flip: append_assoc)

lemma append_split_left:
  assumes "xs @ ys = us @ vs" and "length xs \<le> length us"
  shows "\<exists>ws. us = xs @ ws \<and> ys = ws @ vs"
  using assms by (auto simp: append_eq_append_conv2)

lemma concat_read: "xs @ concat (if drop n c = [] then cs else drop n c # cs) = xs @ drop n c @ concat cs"
  by simp

locale framing =
  fixes split :: "bytes \<Rightarrow> bool \<Rightarrow> split_result"
    and frame :: "'a \<Rightarrow> bytes"
    and body :: "'a \<Rightarrow> bytes"
    and fits :: "'a \<Rightarrow> bool"
  assumes frame_nonempty: "fits x \<Longrightarrow> frame x \<noteq> []"
    and split_frame: "fits x \<Longrightarrow> split (frame x @ rest) False = Token (length (frame x)) (body x)"
    and split_short: "fits x \<Longrightarrow> frame x = buf @ ys \<Longrightarrow> ys \<noteq> [] \<Longrightarrow> split buf False = Need"
    and split_eof: "split [] True = Final 0 []"
begin

lemma scan_frames_split:
  assumes "buf @ concat chunks = concat (map frame xs)" and "\<forall>x\<in>set xs. fits x \<and> length (frame x) \<le> limit"
    and "0 < limit" and "sp = split"
  shows "scan sp limit buf chunks = (map body xs @ [[]], ScanDone)"
  using assms
proof (induction sp limit buf chunks arbitrary: xs rule: scan.induct)
  case (1 sp limit buf chunks)
  have read: ?case if need: "(if buf = [] then Need else sp buf False) = Need"
    and lim: "length buf < limit" and cs: "chunks = c # cs" for c cs
  proof -
    let ?n = "limit - length buf"
    have "(buf @ take ?n c) @ concat (if drop ?n c = [] then cs else drop ?n c # cs) = concat (map frame xs)"
      using "1.prems"(1) unfolding concat_read append_assoc append_take_drop_id_assoc
      by (simp add: cs)
    from "1.IH"(1) [OF need _ cs refl this "1.prems"(2,3,4)] lim show ?thesis
      using scan_read [of buf sp limit c cs, OF need lim] by (simp add: cs)
  qed
  show ?case
  proof (cases xs)
    case Nil
    then have buf: "buf = []" and "concat chunks = []" using "1.prems"(1) by auto
    show ?thesis
    proof (cases chunks)
      case Nil
      then show ?thesis
        using \<open>xs = []\<close> buf "1.prems"(3) by (subst scan.simps) (simp add: split_eof "1.prems"(4))
    next
      case (Cons c cs)
      with buf "1.prems"(3) show ?thesis by (intro read) auto
    qed
  next
    case (Cons x xs')
    have ok: "fits x" "length (frame x) \<le> limit" using "1.prems"(2) Cons by auto
    have eq: "buf @ concat chunks = frame x @ concat (map frame xs')" using "1.prems"(1) Cons by simp
    show ?thesis
    proof (cases "length (frame x) \<le> length buf")
      case True
      then obtain buf' where b: "buf = frame x @ buf'" "buf' @ concat chunks = concat (map frame xs')"
        using append_split_left [OF eq [symmetric]] by metis
      have tok: "(if buf = [] then Need else sp buf False) = Token (length (frame x)) (body x)"
        using frame_nonempty [OF ok(1)] split_frame [OF ok(1)] by (simp add: b(1) "1.prems"(4))
      have "scan sp limit (drop (length (frame x)) buf) chunks = (map body xs' @ [[]], ScanDone)"
        using "1.IH"(2) [OF tok, of xs'] frame_nonempty [OF ok(1)] b "1.prems" Cons by simp
      then show ?thesis
        using tok frame_nonempty [OF ok(1)] by (subst scan.simps) (simp add: Cons)
    next
      case False
      then obtain ys where ys: "frame x = buf @ ys" "concat chunks = ys @ concat (map frame xs')" "ys \<noteq> []"
        using append_split_left [OF eq] by (metis append_Nil2 leI nat_le_linear order_refl)
      then obtain c cs where "chunks = c # cs" by (cases chunks) auto
      moreover have "sp buf False = Need" using split_short [OF ok(1) ys(1,3)] "1.prems"(4) by simp
      ultimately show ?thesis using False ok(2) by (intro read) auto
    qed
  qed
qed

lemmas scan_frames = scan_frames_split [OF _ _ _ refl]

end

end
