(* ===== verification/Replay.thy ===== *)
theory Replay
  imports Proto Go_Scanner
begin

text \<open>
  The sender of the protocol (\<^verbatim>\<open>src/cmd/hadock/replay.go\<close>): preparation of single and fragmented
  packets, the writer with its packet counter, the main loop of the replay command and the
  splitting of HRDP files into records. The checksum \<^verbatim>\<open>sum.Sum1071Bis\<close> and the lengths of the
  HRDP and HRDL headers come from other repositories and are parameters.
\<close>

section \<open>Writing packets\<close>

record replay =
  rp_size :: int
  rp_counter :: uint16
  rp_version :: uint16

definition Replay :: "int \<Rightarrow> int \<Rightarrow> int \<Rightarrow> replay" where
  "Replay s t m =
     (let p = (if s \<le> 0 then HadockVersion1 else HadockVersion2)
      in \<lparr>rp_size = s, rp_counter = 0,
          rp_version = push_bit 12 (ucast p) OR push_bit 8 (of_int t) OR of_int m\<rparr>)"

definition preparePacketV1 :: "(bytes \<Rightarrow> uint16) \<Rightarrow> replay \<Rightarrow> bytes \<Rightarrow> bytes" where
  "preparePacketV1 sum1071 r bs =
     (let digest = be32 Preamble @ be16 (rp_version r) @ be16 (rp_counter r) @
                   be32 (of_nat (length bs)) @ bs
      in digest @ be16 (sum1071 digest))"

text \<open>The loop over the chunks; \<open>sz\<close> is positive where it is called.\<close>

function prepare_chunks :: "(bytes \<Rightarrow> uint16) \<Rightarrow> replay \<Rightarrow> nat \<Rightarrow> nat \<Rightarrow> nat \<Rightarrow> bytes \<Rightarrow> bytes list" where
  "prepare_chunks sum1071 r sz c i re =
     (if re = [] \<or> sz = 0 then []
      else let vs = take sz re
           in (be32 Preamble @ be16 (rp_version r) @ be16 (of_nat i) @ be16 (of_nat c) @
               be16 (rp_counter r) @ be32 (of_nat (length vs)) @ vs @ be16 (sum1071 vs)) #
              prepare_chunks sum1071 r sz c (i + 1) (drop sz re))"
  by pat_completeness auto
termination
  by (relation "measure (\<lambda>(sum1071, r, sz, c, i, re). length re)") auto

declare prepare_chunks.simps [simp del]

definition preparePacketV2 :: "(bytes \<Rightarrow> uint16) \<Rightarrow> replay \<Rightarrow> bytes \<Rightarrow> bytes list" where
  "preparePacketV2 sum1071 r bs =
     (let sz = nat (rp_size r); c = length bs div sz
      in prepare_chunks sum1071 r sz c 0 bs)"

text \<open>
  A connection is a function that takes the bytes of one write and the state of the world and
  returns the number of bytes written and the error, if any.
\<close>

type_synonym 'w conn = "bytes \<Rightarrow> 'w \<Rightarrow> (nat \<times> go_error option) \<times> 'w"

fun write_fragments :: "'w conn \<Rightarrow> nat \<Rightarrow> bytes list \<Rightarrow> 'w \<Rightarrow> (nat \<times> go_error option) \<times> 'w" where
  "write_fragments conn n [] w = ((n, None), w)"
| "write_fragments conn n (f # fs) w =
     (case conn f w of
        ((c, Some e), w') \<Rightarrow> ((c, Some e), w')
      | ((c, None), w') \<Rightarrow> write_fragments conn n fs w')"

definition writePacket :: "(bytes \<Rightarrow> uint16) \<Rightarrow> 'w conn \<Rightarrow> replay \<Rightarrow> bytes \<Rightarrow> 'w \<Rightarrow> (nat \<times> go_error option) \<times> 'w" where
  "writePacket sum1071 conn r bs w =
     (if rp_size r \<le> 0 then
        (case conn (preparePacketV1 sum1071 r bs) w of ((c, err), w') \<Rightarrow> ((length bs, err), w'))
      else write_fragments conn (length bs) (preparePacketV2 sum1071 r bs) w)"

definition Write :: "(bytes \<Rightarrow> uint16) \<Rightarrow> 'w conn \<Rightarrow> replay \<Rightarrow> bytes \<Rightarrow> 'w \<Rightarrow> (nat \<times> go_error option) \<times> replay \<times> 'w" where
  "Write sum1071 conn r bs w =
     (case writePacket sum1071 conn r bs w of
        (res, w') \<Rightarrow> (res, r\<lparr>rp_counter := rp_counter r + 1\<rparr>, w'))"

section \<open>The main loop of the replay command\<close>

text \<open>
  What the loop can receive: a packet of the queue, the closing of the queue, a signal. The
  result is the number of packets and bytes sent, with the final states. \<open>fatal\<close> tells the
  network errors that are not temporary.
\<close>

datatype event = Data bytes | QueueClosed | Signal

record replay_stats =
  st_count :: uint64
  st_size :: uint64

fun replay_loop ::
  "(bytes \<Rightarrow> uint16) \<Rightarrow> 'w conn \<Rightarrow> (go_error \<Rightarrow> bool) \<Rightarrow> int \<Rightarrow> int \<Rightarrow> event list \<Rightarrow> replay_stats \<Rightarrow> replay \<Rightarrow> 'w
   \<Rightarrow> replay_stats \<times> replay \<times> 'w" where
  "replay_loop sum1071 conn fatal num i [] st r w = (st, r, w)"
| "replay_loop sum1071 conn fatal num i (ev # evs) st r w =
     (if \<not> (num \<le> 0 \<or> i < num) then (st, r, w)
      else (case ev of
              QueueClosed \<Rightarrow> (st, r, w)
            | Signal \<Rightarrow> (st, r, w)
            | Data bs \<Rightarrow>
                if length bs = 0 then replay_loop sum1071 conn fatal num (i + 1) evs st r w
                else (case Write sum1071 conn r bs w of
                        ((n, err), r', w') \<Rightarrow>
                          if (case err of Some e \<Rightarrow> fatal e | None \<Rightarrow> False) then (st, r', w')
                          else replay_loop sum1071 conn fatal num (i + 1) evs
                                 (st\<lparr>st_count := st_count st + 1,
                                     st_size := st_size st + of_nat (length bs)\<rparr>) r' w')))"

section \<open>Splitting HRDP files\<close>

definition scanVMUPackets :: "nat \<Rightarrow> nat \<Rightarrow> bytes \<Rightarrow> bool \<Rightarrow> split_result" where
  "scanVMUPackets hrdpLen syncLen bs ateof =
     (if ateof then Final (length bs) bs
      else if length bs < 4 then Need
      else let sz = unat (get_le (take 4 bs) :: uint32)
           in if length bs < sz + 4 then Need
              else if sz < hrdpLen + syncLen then SplitPanic
              else Token (sz + 4) (take (sz - hrdpLen - syncLen) (drop (4 + hrdpLen + syncLen) bs)))"

section \<open>Single packets\<close>

text \<open>The packet the receiver should see for a payload sent unfragmented.\<close>

definition v1_packet :: "(bytes \<Rightarrow> uint16) \<Rightarrow> replay \<Rightarrow> uint8 \<Rightarrow> uint8 \<Rightarrow> bytes \<Rightarrow> Packet" where
  "v1_packet sum1071 r t m bs = new_Packet\<lparr>pk_Version := t, pk_Instance := m, pk_Sequence := rp_counter r,
     pk_Length := of_nat (length bs), pk_Payload := bs,
     pk_Sum := sum1071 (be32 Preamble @ be16 (rp_version r) @ be16 (rp_counter r) @
       be32 (of_nat (length bs)) @ bs)\<rparr>"

lemma of_int_ucast_byte: "0 \<le> t \<Longrightarrow> t < 256 \<Longrightarrow> (of_int t :: uint16) = ucast (of_int t :: uint8)"
proof -
  assume "0 \<le> t" "t < 256"
  then obtain n where n: "t = int n" "n < 256" by (metis nonneg_int_cases nat_int_comparison(2) of_nat_numeral)
  have "unat (of_nat n :: uint16) = n" "unat (of_nat n :: uint8) = n"
    using n(2) by (simp_all add: unat_of_nat)
  moreover have "take_bit 16 n = n" using n(2) by (simp add: take_bit_nat_eq_self)
  ultimately have "(of_nat n :: uint16) = ucast (of_nat n :: uint8)"
    by (simp add: word_unat_eq_iff unsigned_ucast_eq)
  then show ?thesis using n by simp
qed

lemma of_int_small_byte: "0 \<le> t \<Longrightarrow> t < 16 \<Longrightarrow> unat (of_int t :: uint8) < 16"
proof -
  assume "0 \<le> t" "t < 16"
  then obtain n where n: "t = int n" "n < 16" by (metis nonneg_int_cases nat_int_comparison(2) of_nat_numeral)
  then show ?thesis by (simp add: unat_of_nat)
qed

lemma rp_version_prefix:
  assumes "0 \<le> t" "t < 16" "0 \<le> m" "m < 256"
  shows "rp_version (Replay s t m) =
    push_bit 12 (ucast (if s \<le> 0 then HadockVersion1 else HadockVersion2)) OR
    push_bit 8 (ucast (of_int t :: uint8)) OR ucast (of_int m :: uint8)"
  using assms of_int_ucast_byte [of t] of_int_ucast_byte [of m] by (simp add: Replay_def Let_def)

lemma preparePacketV1_frame:
  assumes "rp_version r = push_bit 8 (ucast t) OR ucast m"
  shows "preparePacketV1 sum1071 r bs = frame (v1_packet sum1071 r t m bs)"
  using assms
  by (simp add: preparePacketV1_def frame_def v1_packet_def packet_prefix_def new_Packet_def Let_def)

lemma v1_packet_fits:
  "unat t < 16 \<Longrightarrow> length bs < 2 ^ 32 \<Longrightarrow> fits_v1 (v1_packet sum1071 r t m bs)"
  by (simp add: fits_v1_def v1_packet_def new_Packet_def HadockVersion1_def unat_of_nat)

section \<open>Fragments in closed form\<close>

definition chunk_packet :: "(bytes \<Rightarrow> uint16) \<Rightarrow> replay \<Rightarrow> nat \<Rightarrow> nat \<Rightarrow> bytes \<Rightarrow> Packet" where
  "chunk_packet sum1071 r c k vs = new_Packet\<lparr>pk_Curr := of_nat k, pk_Last := of_nat c,
     pk_Sequence := rp_counter r, pk_Length := of_nat (length vs), pk_Payload := vs, pk_Sum := sum1071 vs\<rparr>"

definition chunk_count :: "nat \<Rightarrow> bytes \<Rightarrow> nat" where
  "chunk_count sz bs = (length bs + sz - 1) div sz"

definition chunk_packets :: "(bytes \<Rightarrow> uint16) \<Rightarrow> replay \<Rightarrow> nat \<Rightarrow> bytes \<Rightarrow> Packet list" where
  "chunk_packets sum1071 r sz bs =
     map (\<lambda>k. chunk_packet sum1071 r (length bs div sz) k (take sz (drop (k * sz) bs))) [0..<chunk_count sz bs]"

lemma chunk_count_step:
  assumes "0 < sz" and "bs \<noteq> []"
  shows "chunk_count sz bs = Suc (chunk_count sz (drop sz bs))"
proof (cases "length bs \<le> sz")
  case True
  with assms have "length bs + sz - 1 < 2 * sz" "sz \<le> length bs + sz - 1"
    by (cases bs; simp)+
  then have "(length bs + sz - 1) div sz = 1" by (intro div_nat_eqI) simp_all
  moreover have "(sz - 1) div sz = 0" using assms(1) by simp
  ultimately show ?thesis using True by (simp add: chunk_count_def)
next
  case False
  then have eq: "length bs + sz - 1 = (length (drop sz bs) + sz - 1) + sz" using assms by simp
  have "(x + sz) div sz = Suc (x div sz)" for x using assms(1) by (simp add: div_add_self2)
  then show ?thesis unfolding chunk_count_def eq .
qed

lemma prepare_chunks_closed:
  "0 < sz \<Longrightarrow> prepare_chunks sum1071 r sz c i re =
     map (\<lambda>k. frag_frame (rp_version r) (chunk_packet sum1071 r c (i + k) (take sz (drop (k * sz) re))))
       [0..<chunk_count sz re]"
proof (induction sum1071 r sz c i re rule: prepare_chunks.induct)
  case (1 sum1071 r sz c i re)
  show ?case
  proof (cases "re = []")
    case True
    with "1.prems" show ?thesis by (simp add: prepare_chunks.simps chunk_count_def)
  next
    case False
    have "drop (k * sz) (drop sz re) = drop (Suc k * sz) re" for k
      by (simp add: add.commute)
    with False "1.IH" "1.prems" show ?thesis
      by (simp add: prepare_chunks.simps [of sum1071 r sz c i re] chunk_count_step map_upt_Suc ac_simps
          frag_frame_def frag_body_def chunk_packet_def new_Packet_def Let_def del: upt_Suc)
  qed
qed

lemma concat_chunks:
  "0 < sz \<Longrightarrow> concat (map (\<lambda>k. take sz (drop (k * sz) bs)) [0..<chunk_count sz bs]) = bs"
proof (induction "length bs" arbitrary: bs rule: less_induct)
  case less
  show ?case
  proof (cases "bs = []")
    case True
    with less.prems show ?thesis by (simp add: chunk_count_def)
  next
    case False
    have "drop (k * sz) (drop sz bs) = drop (Suc k * sz) bs" for k
      by (simp add: add.commute)
    with less.hyps [of "drop sz bs"] False less.prems show ?thesis
      by (simp add: chunk_count_step map_upt_Suc del: upt_Suc)
  qed
qed

lemma preparePacketV2_packets:
  "0 < rp_size r \<Longrightarrow> preparePacketV2 sum1071 r bs =
     map (frag_frame (rp_version r)) (chunk_packets sum1071 r (nat (rp_size r)) bs)"
  by (simp add: preparePacketV2_def Let_def prepare_chunks_closed chunk_packets_def comp_def)

lemma chunk_packets_fit:
  assumes "0 < sz" and "sz < 2 ^ 32"
  shows "\<forall>v\<in>set (chunk_packets sum1071 r sz bs). fits_frag v"
proof -
  have "unat (of_nat (min n sz) :: uint32) = min n sz" for n
    using assms(2) by (simp add: unat_of_nat)
  then show ?thesis
    by (simp add: chunk_packets_def fits_frag_def chunk_packet_def new_Packet_def)
qed

lemma chunk_count_exact: "0 < sz \<Longrightarrow> sz dvd length bs \<Longrightarrow> chunk_count sz bs = length bs div sz"
  unfolding chunk_count_def by (rule div_nat_eqI) (auto simp: algebra_simps elim!: dvdE)

lemma chunk_count_partial:
  assumes "0 < sz" and "\<not> sz dvd length bs"
  shows "chunk_count sz bs = Suc (length bs div sz)"
proof -
  define q m where "q = length bs div sz" and "m = length bs mod sz"
  have len: "length bs = sz * q + m" by (simp add: q_def m_def)
  have "0 < m" "m < sz" using assms by (auto simp: m_def dvd_eq_mod_eq_0)
  then have "(sz * q + m + sz - 1) div sz = Suc q" by (intro div_nat_eqI) auto
  moreover have "(sz * q + m) div sz = q" using \<open>m < sz\<close> by simp
  ultimately show ?thesis by (simp add: chunk_count_def len)
qed

lemma chunk_packets_payload:
  "0 < sz \<Longrightarrow> concat (map pk_Payload (chunk_packets sum1071 r sz bs)) = bs"
  using concat_chunks [of sz bs] by (simp add: chunk_packets_def comp_def chunk_packet_def)

lemma of_nat_uint16_inj: "a < 2 ^ 16 \<Longrightarrow> b < 2 ^ 16 \<Longrightarrow> (of_nat a :: uint16) = of_nat b \<longleftrightarrow> a = b"
proof -
  assume "a < 2 ^ 16" "b < 2 ^ 16"
  then have "unat (of_nat a :: uint16) = a" "unat (of_nat b :: uint16) = b"
    by (simp_all add: unat_of_nat)
  then show ?thesis by metis
qed

lemma chunk_packets_sorted:
  assumes "chunk_count sz bs \<le> 2 ^ 16"
  shows "sort_slice pk_Curr (chunk_packets sum1071 r sz bs) = chunk_packets sum1071 r sz bs"
proof (rule sort_slice_sorted)
  have "map pk_Curr (chunk_packets sum1071 r sz bs) = map (of_nat :: nat \<Rightarrow> uint16) [0..<chunk_count sz bs]"
    by (simp add: chunk_packets_def chunk_packet_def)
  moreover have "sorted (map (of_nat :: nat \<Rightarrow> uint16) [0..<n])" if "n \<le> 2 ^ 16" for n
    using that
    by (auto simp: sorted_iff_nth_mono word_le_nat_alt unat_of_nat)
  ultimately show "sorted (map pk_Curr (chunk_packets sum1071 r sz bs))" using assms by simp
qed

lemma chunk_packets_not_final:
  assumes "length bs div sz < 2 ^ 16" and "chunk_count sz bs \<le> Suc (length bs div sz)"
    and "k < chunk_count sz bs"
  shows "pk_Curr (chunk_packets sum1071 r sz bs ! k) = pk_Last (chunk_packets sum1071 r sz bs ! k)
         \<longleftrightarrow> k = length bs div sz"
  using assms of_nat_uint16_inj [of k "length bs div sz"]
  by (simp add: chunk_packets_def chunk_packet_def)

lemma chunk_packets_run:
  assumes "0 < sz" and "\<not> sz dvd length bs" and "length bs div sz < 2 ^ 16"
  shows "only_last_final (chunk_packets sum1071 r sz bs)"
proof -
  let ?vs = "chunk_packets sum1071 r sz bs"
  have n: "length ?vs = Suc (length bs div sz)"
    using chunk_count_partial [OF assms(1,2)] by (simp add: chunk_packets_def)
  note final = chunk_packets_not_final [OF assms(3), of _ sum1071 r]
  have cnt: "chunk_count sz bs = Suc (length bs div sz)" by (rule chunk_count_partial [OF assms(1,2)])
  have "pk_Curr v \<noteq> pk_Last v" if "v \<in> set (butlast ?vs)" for v
    using that n final cnt by (auto simp: in_set_conv_nth nth_butlast)
  moreover have "pk_Curr (last ?vs) = pk_Last (last ?vs)"
    using n final cnt by (subst (1 2) last_conv_nth) auto
  ultimately show ?thesis using n by (auto simp: only_last_final_def)
qed

lemma chunk_packets_never_final:
  assumes "0 < sz" and "sz dvd length bs" and "length bs div sz < 2 ^ 16"
    and "v \<in> set (chunk_packets sum1071 r sz bs)"
  shows "pk_Curr v \<noteq> pk_Last v"
proof -
  have cnt: "chunk_count sz bs = length bs div sz" by (rule chunk_count_exact [OF assms(1,2)])
  from assms(4) obtain k where "k < chunk_count sz bs" "v = chunk_packets sum1071 r sz bs ! k"
    by (auto simp: in_set_conv_nth) (simp add: chunk_packets_def)
  with chunk_packets_not_final [OF assms(3), of k sum1071 r] cnt show ?thesis by simp
qed

lemma last_chunk_packet:
  assumes "0 < sz" and "\<not> sz dvd length bs"
  shows "pk_Sequence (last (chunk_packets sum1071 r sz bs)) = rp_counter r \<and>
         pk_Length (last (chunk_packets sum1071 r sz bs)) = of_nat (length bs mod sz)"
proof -
  have "length bs - length bs div sz * sz = length bs mod sz"
    by (simp add: minus_div_mult_eq_mod)
  moreover have "min (length bs mod sz) sz = length bs mod sz" using assms(1) by (simp add: min_def)
  ultimately show ?thesis
    by (simp add: chunk_packets_def chunk_count_partial [OF assms] chunk_packet_def)
qed

section \<open>The loop over the whole queue\<close>

text \<open>A connection that takes everything, with the bytes it received; \<open>wire\<close> is what one write sends.\<close>

definition log_conn :: "bytes conn" where
  "log_conn bs w = ((length bs, None), w @ bs)"

definition wire :: "(bytes \<Rightarrow> uint16) \<Rightarrow> replay \<Rightarrow> bytes \<Rightarrow> bytes" where
  "wire sum1071 r bs =
     (if rp_size r \<le> 0 then preparePacketV1 sum1071 r bs else concat (preparePacketV2 sum1071 r bs))"

definition nth_replay :: "replay \<Rightarrow> nat \<Rightarrow> replay" where
  "nth_replay r k = r\<lparr>rp_counter := rp_counter r + of_nat k\<rparr>"

lemma write_fragments_log: "write_fragments log_conn n fs w = ((n, None), w @ concat fs)"
  by (induction fs arbitrary: w) (simp_all add: log_conn_def)

lemma Write_log:
  "Write sum1071 log_conn r bs w = ((length bs, None), nth_replay r 1, w @ wire sum1071 r bs)"
  by (simp add: Write_def writePacket_def write_fragments_log wire_def nth_replay_def log_conn_def)

lemma nth_replay_Suc: "nth_replay (nth_replay r (Suc 0)) k = nth_replay r (Suc k)"
  by (simp add: nth_replay_def ac_simps)

lemma replay_loop_log:
  assumes "num \<le> 0" and "\<forall>bs\<in>set bss. bs \<noteq> []"
  shows "replay_loop sum1071 log_conn fatal num i (map Data bss @ [QueueClosed]) st r w =
    (st\<lparr>st_count := st_count st + of_nat (length bss), st_size := st_size st + of_nat (length (concat bss))\<rparr>,
     nth_replay r (length bss),
     w @ concat (map (\<lambda>k. wire sum1071 (nth_replay r k) (bss ! k)) [0..<length bss]))"
  using assms(2)
proof (induction bss arbitrary: i st r w)
  case Nil
  then show ?case using assms(1) by (simp add: nth_replay_def)
next
  case (Cons bs bss)
  have "nth_replay r 0 = r" by (simp add: nth_replay_def)
  with Cons show ?case
    using assms(1)
    by (simp add: Write_log nth_replay_Suc map_upt_Suc ac_simps del: upt_Suc)
qed

section \<open>Splitting records\<close>

text \<open>
  A record of an HRDP file: the little-endian size of what follows, the HRDP and HRDL headers,
  the packet. The scanner finds the packets of a file made of such records however the file is
  cut into chunks by the reads.
\<close>

definition hrdp_record :: "bytes \<Rightarrow> bytes \<Rightarrow> bytes" where
  "hrdp_record hdr body = le32 (of_nat (length hdr + length body)) @ hdr @ body"

lemma scanVMUPackets_record:
  assumes "length hdr = hl + sl" and "length hdr + length body < 2 ^ 32"
  shows "scanVMUPackets hl sl (hrdp_record hdr body @ rest) False =
         Token (length (hrdp_record hdr body)) body"
  using assms unat_of_nat_small(2) [OF assms(2)]
  by (simp add: scanVMUPackets_def hrdp_record_def Let_def del: of_nat_add)

lemma scanVMUPackets_short:
  assumes "length hdr = hl + sl" and "length hdr + length body < 2 ^ 32"
    and "hrdp_record hdr body = buf @ ys" and "ys \<noteq> []"
  shows "scanVMUPackets hl sl buf False = Need"
proof (cases "length buf < 4")
  case True
  then show ?thesis by (simp add: scanVMUPackets_def)
next
  case False
  then have "take 4 buf = take 4 (buf @ ys)" by simp
  also have "\<dots> = take 4 (hrdp_record hdr body)" by (simp only: assms(3))
  also have "\<dots> = le32 (of_nat (length hdr + length body))" by (simp add: hrdp_record_def)
  finally have tk: "take 4 buf = le32 (of_nat (length hdr + length body))" .
  have "length (hrdp_record hdr body) = length buf + length ys" by (simp only: assms(3) length_append)
  then have "4 + (length hdr + length body) = length buf + length ys" by (simp add: hrdp_record_def)
  moreover have "0 < length ys" using assms(4) by simp
  ultimately have "length buf < length hdr + length body + 4" by linarith
  then show ?thesis
    using False unat_of_nat_small(2) [OF assms(2)]
    by (simp add: scanVMUPackets_def tk Let_def del: of_nat_add)
qed

definition hrdp_file :: "(bytes \<times> bytes) list \<Rightarrow> bytes" where
  "hrdp_file recs = concat (map (\<lambda>(hdr, body). hrdp_record hdr body) recs)"

definition record_ok :: "nat \<Rightarrow> nat \<Rightarrow> nat \<Rightarrow> bytes \<times> bytes \<Rightarrow> bool" where
  "record_ok hl sl limit = (\<lambda>(hdr, body). length hdr = hl + sl \<and> length hdr + length body < 2 ^ 32 \<and>
     length (hrdp_record hdr body) \<le> limit)"

interpretation hrdp: framing "scanVMUPackets hl sl" "\<lambda>(hdr, body). hrdp_record hdr body" snd
  "\<lambda>(hdr, body). length hdr = hl + sl \<and> length hdr + length body < 2 ^ 32" for hl sl
proof
  fix x :: "bytes \<times> bytes" and buf ys rest :: bytes
  assume ok: "(\<lambda>(hdr, body). length hdr = hl + sl \<and> length hdr + length body < 2 ^ 32) x"
  obtain hdr body where x: "x = (hdr, body)" by fastforce
  have "0 < length (hrdp_record hdr body)" by (simp add: hrdp_record_def del: length_greater_0_conv)
  then show "(\<lambda>(hdr, body). hrdp_record hdr body) x \<noteq> []" by (simp add: x)
  show "scanVMUPackets hl sl ((\<lambda>(hdr, body). hrdp_record hdr body) x @ rest) False =
      Token (length ((\<lambda>(hdr, body). hrdp_record hdr body) x)) (snd x)"
    using ok scanVMUPackets_record by (simp add: x)
  show "scanVMUPackets hl sl buf False = Need" if "(\<lambda>(hdr, body). hrdp_record hdr body) x = buf @ ys" "ys \<noteq> []"
    using ok that scanVMUPackets_short by (auto simp: x)
next
  show "scanVMUPackets hl sl [] True = Final 0 []" by (simp add: scanVMUPackets_def)
qed

lemma scan_records:
  assumes "buf @ concat chunks = hrdp_file recs" and "\<forall>x\<in>set recs. record_ok hl sl limit x"
    and "0 < limit"
  shows "scan (scanVMUPackets hl sl) limit buf chunks = (map snd recs @ [[]], ScanDone)"
  using assms by (intro hrdp.scan_frames) (auto simp: hrdp_file_def record_ok_def)

section \<open>Properties\<close>

text \<open>Empty tokens are not sent.\<close>

lemma replay_loop_skip:
  "num \<le> 0 \<Longrightarrow> replay_loop sum1071 conn fatal num i (map Data bss @ [QueueClosed]) st r w =
     replay_loop sum1071 conn fatal num j (map Data (filter (\<lambda>bs. bs \<noteq> []) bss) @ [QueueClosed]) st r w"
proof (induction bss arbitrary: i j st r w)
  case (Cons bs bss)
  show ?case
  proof (cases "bs = []")
    case True
    with Cons show ?thesis by simp
  next
    case False
    with Cons show ?thesis by (simp split: prod.split)
  qed
qed simp

text \<open>
  What the replay command sends unfragmented, the listener receives: over a connection that
  delivers the bytes, the packets of the queue come out of \<^verbatim>\<open>DecodeBinaryPackets\<close> in order, each
  with its payload, the instance and VMU version given on the command line and consecutive
  sequence numbers modulo 65536; the counters report all of them.
\<close>

lemma replay_decode_v1:
  assumes "s \<le> 0" "0 \<le> t" "t < 16" "0 \<le> m" "m < 256" "num \<le> 0"
    and "\<forall>bs\<in>set bss. bs \<noteq> [] \<and> length bs < 2 ^ 32"
    and "replay_loop sum1071 log_conn fatal num 0 (map Data bss @ [QueueClosed])
           \<lparr>st_count = 0, st_size = 0\<rparr> (Replay s t m) [] = (st, r, out)"
  shows "DecodeBinaryPackets (source out EOF) [] =
      Some (map (\<lambda>k. v1_packet sum1071 (nth_replay (Replay s t m) k) (of_int t) (of_int m) (bss ! k)) [0..<length bss])
    \<and> st_count st = of_nat (length bss)"
proof -
  let ?r = "Replay s t m"
  let ?pk = "\<lambda>k. v1_packet sum1071 (nth_replay ?r k) (of_int t) (of_int m) (bss ! k)"
  have ver: "rp_version (nth_replay ?r k) = push_bit 8 (ucast (of_int t :: uint8)) OR ucast (of_int m :: uint8)" for k
    using rp_version_prefix [OF assms(2-5), of s] assms(1) by (simp add: nth_replay_def HadockVersion1_def)
  have "rp_size (nth_replay ?r k) = s" for k by (simp add: nth_replay_def Replay_def Let_def)
  then have wire: "wire sum1071 (nth_replay ?r k) (bss ! k) = frame (?pk k)" for k
    using assms(1) preparePacketV1_frame [OF ver] by (simp add: wire_def)
  have fits: "\<forall>p\<in>set (map ?pk [0..<length bss]). fits_v1 p"
    using assms(7) of_int_small_byte [OF assms(2,3)] by (auto intro!: v1_packet_fits)
  have run: "replay_loop sum1071 log_conn fatal num 0 (map Data bss @ [QueueClosed]) \<lparr>st_count = 0, st_size = 0\<rparr> ?r [] =
     (\<lparr>st_count = of_nat (length bss), st_size = of_nat (length (concat bss))\<rparr>, nth_replay ?r (length bss),
      concat (map frame (map ?pk [0..<length bss])))"
    using replay_loop_log [OF assms(6), of bss sum1071 fatal 0 "\<lparr>st_count = 0, st_size = 0\<rparr>" ?r "[]"] assms(7)
    by (simp add: wire comp_def)
  have "decode_loop (sort_slice id []) (source (concat (map frame (map ?pk [0..<length bss])) @ []) EOF) [] =
      Some (map ?pk [0..<length bss])"
    unfolding decode_loop_frames [OF fits]
    by (subst decode_loop.simps) (simp add: DecodePacket_empty ends_stream_def instance_accepted_sorted)
  then show ?thesis using run assms(8) by (auto simp: DecodeBinaryPackets_def)
qed

text \<open>
  C6. A payload whose size is not a multiple of the chunk size is sent as fragments that the
  receiver puts together again; the packet it builds carries the length of the last fragment, not
  that of the payload.
\<close>

theorem replay_fragments_roundtrip:
  assumes "0 < s" "s < 2 ^ 32" "\<not> nat s dvd length bs" "length bs div nat s < 2 ^ 16"
    and "0 \<le> t" "t < 16" "0 \<le> m" "m < 256"
  shows "DecodePacket (source (concat (preparePacketV2 sum1071 (Replay s t m) bs) @ rest) e) =
    (Inr (new_Packet\<lparr>pk_Protocol := HadockVersion2, pk_Version := of_int t, pk_Instance := of_int m,
       pk_Length := of_nat (length bs mod nat s), pk_Payload := bs\<rparr>), source rest e)"
proof -
  let ?r = "Replay s t m" and ?sz = "nat s"
  let ?vs = "chunk_packets sum1071 ?r ?sz bs"
  have r: "rp_size ?r = s" "rp_counter ?r = 0" by (simp_all add: Replay_def Let_def)
  have sz: "0 < ?sz" "?sz < 2 ^ 32" using assms(1,2) by (simp_all add: nat_less_iff)
  have "sort_slice pk_Curr ?vs = ?vs"
    using chunk_count_partial [OF sz(1) assms(3)] assms(4) by (intro chunk_packets_sorted) simp
  then have payload: "concat (map pk_Payload (sort_slice pk_Curr ?vs)) = bs"
    using chunk_packets_payload [OF sz(1)] by simp
  have "rp_version ?r = push_bit 12 (ucast HadockVersion2) OR push_bit 8 (ucast (of_int t :: uint8)) OR ucast (of_int m :: uint8)"
    using rp_version_prefix [OF assms(5-8), of s] assms(1) by simp
  from DecodePacket_fragments [OF chunk_packets_run [OF sz(1) assms(3,4)] chunk_packets_fit [OF sz] this
      of_int_small_byte [OF assms(5,6)]]
  show ?thesis
    using last_chunk_packet [OF sz(1) assms(3), of sum1071 ?r] payload r assms(1)
    by (simp add: preparePacketV2_packets new_Packet_def)
qed

theorem replay_fragments_roundtrip_witness:
  "DecodePacket (source (concat (preparePacketV2 (\<lambda>_. 0) (Replay 2 2 255) [5, 6, 7]) @ []) EOF) =
    (Inr (new_Packet\<lparr>pk_Protocol := HadockVersion2, pk_Version := of_int 2, pk_Instance := of_int 255,
       pk_Length := of_nat (length [5::byte, 6, 7] mod nat 2), pk_Payload := [5, 6, 7]\<rparr>), source [] EOF)"
  by (rule replay_fragments_roundtrip) simp_all

text \<open>
  C38. A payload whose size is a multiple of the chunk size is announced with one fragment more
  than is sent: no fragment is the last one, the receiver goes on with the fragments of the next
  packet and delivers a single packet with the bytes of both.
\<close>

theorem replay_fragments_merge:
  assumes "0 < s" "s < 2 ^ 32" "nat s dvd length bs" "length bs div nat s < 2 ^ 16"
    and "\<not> nat s dvd length bs'" "length bs' div nat s < 2 ^ 16"
    and "0 \<le> t" "t < 16" "0 \<le> m" "m < 256"
  shows "\<exists>p. DecodePacket (source (concat (preparePacketV2 sum1071 (Replay s t m) bs) @
      concat (preparePacketV2 sum1071 (nth_replay (Replay s t m) 1) bs') @ rest) e) = (Inr p, source rest e) \<and>
    length (pk_Payload p) = length bs + length bs' \<and> pk_Sequence p = 1"
proof -
  let ?r = "Replay s t m" and ?r' = "nth_replay (Replay s t m) 1" and ?sz = "nat s"
  let ?vs = "chunk_packets sum1071 ?r ?sz bs" and ?ws = "chunk_packets sum1071 ?r' ?sz bs'"
  have r: "rp_size ?r = s" "rp_size ?r' = s" "rp_counter ?r' = 1" "rp_version ?r' = rp_version ?r"
    by (simp_all add: Replay_def Let_def nth_replay_def)
  have sz: "0 < ?sz" "?sz < 2 ^ 32" using assms(1,2) by (simp_all add: nat_less_iff)
  have ws: "only_last_final ?ws" by (rule chunk_packets_run [OF sz(1) assms(5,6)])
  have run: "only_last_final (?vs @ ?ws)"
    using ws chunk_packets_never_final [OF sz(1) assms(3,4)]
    by (auto simp: only_last_final_def butlast_append)
  have fits: "\<forall>v\<in>set (?vs @ ?ws). fits_frag v"
    using chunk_packets_fit [OF sz] by auto
  have ver: "rp_version ?r = push_bit 12 (ucast HadockVersion2) OR push_bit 8 (ucast (of_int t :: uint8)) OR ucast (of_int m :: uint8)"
    using rp_version_prefix [OF assms(7-10), of s] assms(1) by simp
  have "mset (concat (map pk_Payload (sort_slice pk_Curr (?vs @ ?ws)))) = mset (concat (map pk_Payload (?vs @ ?ws)))"
    by (simp only: mset_concat mset_map map_map flip: sum_mset_sum_list) simp
  then have len: "length (concat (map pk_Payload (sort_slice pk_Curr (?vs @ ?ws)))) = length bs + length bs'"
    using mset_eq_length chunk_packets_payload [OF sz(1)] by fastforce
  have last: "last (?vs @ ?ws) = last ?ws" using ws by (simp add: only_last_final_def)
  show ?thesis
    using DecodePacket_fragments [OF run fits ver of_int_small_byte [OF assms(7,8)], of rest e] len
      last last_chunk_packet [OF sz(1) assms(5), of sum1071 ?r'] r assms(1)
    by (simp add: preparePacketV2_packets)
qed

theorem replay_fragments_merge_witness:
  "\<exists>p. DecodePacket (source (concat (preparePacketV2 (\<lambda>_. 0) (Replay 2 2 255) [5, 6]) @
      concat (preparePacketV2 (\<lambda>_. 0) (nth_replay (Replay 2 2 255) 1) [7]) @ []) EOF) = (Inr p, source [] EOF) \<and>
    length (pk_Payload p) = length [5::byte, 6] + length [7::byte] \<and> pk_Sequence p = 1"
  by (rule replay_fragments_merge) simp_all

text \<open>
  The scanner of the replay command cuts an HRDP file into its records, whatever the sizes of
  the reads, as long as each record fits the buffer; it strips the size and the two headers, and
  the empty remainder at the end of the file comes out as one empty token.
\<close>

theorem scan_hrdp_file:
  assumes "concat chunks = hrdp_file recs" and "\<forall>x\<in>set recs. record_ok hl sl limit x" and "0 < limit"
  shows "scan (scanVMUPackets hl sl) limit [] chunks = (map snd recs @ [[]], ScanDone)"
  by (rule scan_records) (use assms in auto)

theorem scan_hrdp_file_witness:
  "scan (scanVMUPackets 1 1) 100 [] [take 3 (hrdp_file [([1, 2], [3, 4, 5])]), drop 3 (hrdp_file [([1, 2], [3, 4, 5])])] =
   (map snd [([1 :: byte, 2], [3 :: byte, 4, 5])] @ [[]], ScanDone)"
  by (rule scan_hrdp_file) (simp_all add: record_ok_def hrdp_record_def)

end
