(* ===== verification/Compressed.thy ===== *)
theory Compressed
  imports Proto
begin

text \<open>
  The decoder of compressed packets, \<^verbatim>\<open>DecodeCompressedPackets\<close> of \<^verbatim>\<open>src/proto.go\<close>. Package gzip is a
  parameter: what its reader returns is the input. All payloads are slices of one buffer of 4 MB, so a packet
  carries the length of its slice and the buffer is part of the state.
\<close>

record gz_packet =
  gz_Version :: uint8
  gz_Instance :: uint8
  gz_len :: nat

datatype gz_end = GzReturned | GzPanic | GzWaiting

definition gz_payload :: "bytes \<Rightarrow> gz_packet \<Rightarrow> bytes" where
  "gz_payload buf p = take (gz_len p) buf"

definition gz_capacity :: nat where "gz_capacity = 4 * 1024 * 1024"

text \<open>
  The result: the packets sent, each with the buffer at that moment, the buffer at the end and how the
  goroutine ended. A read that fails with an error other than the end of the data sends the slice of the last
  successful read again; the bytes of a read that meets the end of the data are not sent. The queue is never closed.
\<close>

fun compressed_loop ::
  "bytes \<Rightarrow> (bytes \<times> go_error option) list \<Rightarrow> bytes \<Rightarrow> nat \<Rightarrow> (gz_packet \<times> bytes) list \<times> bytes \<times> gz_end" where
  "compressed_loop extra [] buf n = ([], buf, GzWaiting)"
| "compressed_loop extra ((d, err) # rs) buf n =
     (let buf = d @ drop (length d) buf in
      if err = Some EOF \<or> err = Some ErrUnexpectedEOF then ([], buf, GzReturned)
      else
        let n = (if err = None then length d else n) in
        if length extra < 2 then ([], buf, GzPanic)
        else
          let version = get_be (take 2 extra) :: uint16;
              p = \<lparr>gz_Version = ucast (drop_bit 8 version AND 0x0F), gz_Instance = ucast (version AND 0xFF), gz_len = n\<rparr>;
              (ps, out) = compressed_loop extra rs buf n
          in ((p, buf) # ps, out))"

text \<open>\<open>header\<close> is the extra field of the gzip header; without a valid header the reader is nil.\<close>

definition DecodeCompressedPackets ::
  "bytes option \<Rightarrow> (bytes \<times> go_error option) list \<Rightarrow> (gz_packet \<times> bytes) list \<times> bytes \<times> gz_end" where
  "DecodeCompressedPackets header reads =
     (case header of
        None \<Rightarrow> ([], replicate gz_capacity 0, GzPanic)
      | Some extra \<Rightarrow> compressed_loop extra reads (replicate gz_capacity 0) 0)"

lemma compressed_loop_reads:
  assumes "2 \<le> length extra"
  shows "map (\<lambda>(p, b). (gz_len p, gz_payload b p)) (fst (compressed_loop extra (map (\<lambda>d. (d, None)) ds @ [([], Some EOF)]) buf n)) =
      map (\<lambda>d. (length d, d)) ds \<and>
    fst (snd (compressed_loop extra (map (\<lambda>d. (d, None)) ds @ [([], Some EOF)]) buf n)) =
      foldl (\<lambda>b d. d @ drop (length d) b) buf ds \<and>
    snd (snd (compressed_loop extra (map (\<lambda>d. (d, None)) ds @ [([], Some EOF)]) buf n)) = GzReturned"
  using assms by (induction ds arbitrary: buf n) (simp_all add: Let_def gz_payload_def case_prod_beta)

lemma foldl_same_length:
  "\<forall>d\<in>set ds. length d = k \<Longrightarrow> ds \<noteq> [] \<Longrightarrow> take k (foldl (\<lambda>b d. d @ drop (length d) b) buf ds) = last ds"
  by (induction ds rule: rev_induct) simp_all

text \<open>
  C39. The decoder of compressed packets sends one packet per read, with the bytes of that read at the
  moment it is sent; but all packets share one buffer: when the reads have the same length, every packet that
  was received has, once the decoder has gone on to the end, the payload of the last one.
\<close>

theorem compressed_packets_share_buffer:
  assumes "2 \<le> length extra" and "\<forall>d\<in>set ds. length d = k"
    and "DecodeCompressedPackets (Some extra) (map (\<lambda>d. (d, None)) ds @ [([], Some EOF)]) = (ps, buf, ending)"
  shows "ending = GzReturned \<and> map (\<lambda>(p, b). gz_payload b p) ps = ds \<and>
    (\<forall>(p, b)\<in>set ps. gz_payload buf p = last ds)"
proof -
  from assms(3) have run: "compressed_loop extra (map (\<lambda>d. (d, None)) ds @ [([], Some EOF)]) (replicate gz_capacity 0) 0 = (ps, buf, ending)"
    by (simp add: DecodeCompressedPackets_def)
  from compressed_loop_reads [OF assms(1), of ds "replicate gz_capacity 0" 0] have
    sent: "map (\<lambda>(p, b). (gz_len p, gz_payload b p)) ps = map (\<lambda>d. (length d, d)) ds" and
    fin: "buf = foldl (\<lambda>b d. d @ drop (length d) b) (replicate gz_capacity 0) ds" and ret: "ending = GzReturned"
    by (simp_all add: run)
  have payloads: "map (\<lambda>(p, b). gz_payload b p) ps = ds"
    using arg_cong [OF sent, of "map snd"] by (simp add: comp_def case_prod_unfold)
  have "gz_payload buf p = last ds" if "(p, b) \<in> set ps" for p b
  proof -
    from that have "(gz_len p, gz_payload b p) \<in> set (map (\<lambda>d. (length d, d)) ds)"
      unfolding sent [symmetric] by force
    then have "gz_len p = k" "ds \<noteq> []" using assms(2) by auto
    then show ?thesis using foldl_same_length [OF assms(2)] by (simp add: gz_payload_def fin)
  qed
  with ret payloads show ?thesis by auto
qed

theorem compressed_packets_share_buffer_witness:
  "\<exists>ps buf ending. DecodeCompressedPackets (Some [2, 255]) [([1, 2], None), ([3, 4], None), ([], Some EOF)] = (ps, buf, ending) \<and>
     map (\<lambda>(p, b). gz_payload b p) ps = [[1, 2], [3, 4]] \<and> map (\<lambda>(p, b). gz_payload buf p) ps = [[3, 4], [3, 4]]"
proof -
  obtain ps buf ending where run: "DecodeCompressedPackets (Some [2, 255]) (map (\<lambda>d. (d, None)) [[1, 2], [3, 4]] @ [([], Some EOF)]) = (ps, buf, ending)"
    by (metis prod_cases3)
  have facts: "map (\<lambda>(p, b). gz_payload b p) ps = [[1, 2], [3, 4]]" "\<forall>(p, b)\<in>set ps. gz_payload buf p = [3, 4]"
    using compressed_packets_share_buffer [OF _ _ run, of 2] by simp_all
  have "length ps = 2" using arg_cong [OF facts(1), of length] by simp
  then have "map (\<lambda>(p, b). gz_payload buf p) ps = replicate 2 [3, 4]"
    using facts(2) by (intro replicate_eqI) (auto simp: case_prod_unfold)
  with facts(1) run show ?thesis by (simp add: numeral_2_eq_2)
qed

end
