(* ===== verification/Go_Path.thy ===== *)
theory Go_Path
  imports Hadock_Prelude
begin

text \<open>
  Slash-separated paths as packages path and path/filepath treat them (\<^verbatim>\<open>Clean\<close>, \<^verbatim>\<open>Join\<close>,
  \<^verbatim>\<open>Base\<close>, \<^verbatim>\<open>Ext\<close>), the few functions of package strings the sources use, and decimal
  formatting. The abstraction of a path is whether it is rooted and its list of components;
  \<open>render\<close> goes back to the string. Joining a plain name to a rendered path appends one
  component, which is what the directory layouts rely on.
\<close>

section \<open>Strings\<close>

definition ascii_lower :: "char \<Rightarrow> char" where
  "ascii_lower c = (if CHR ''A'' \<le> c \<and> c \<le> CHR ''Z'' then char_of (of_char c + (32::nat)) else c)"

definition ToLower :: "string \<Rightarrow> string" where
  "ToLower s = map ascii_lower s"

definition HasPrefix :: "string \<Rightarrow> string \<Rightarrow> bool" where
  "HasPrefix s p \<longleftrightarrow> take (length p) s = p"

definition HasSuffix :: "string \<Rightarrow> string \<Rightarrow> bool" where
  "HasSuffix s p \<longleftrightarrow> HasPrefix (rev s) (rev p)"

definition TrimPrefix :: "string \<Rightarrow> string \<Rightarrow> string" where
  "TrimPrefix s p = (if HasPrefix s p then drop (length p) s else s)"

definition TrimSuffix :: "string \<Rightarrow> string \<Rightarrow> string" where
  "TrimSuffix s p = (if HasSuffix s p then take (length s - length p) s else s)"

text \<open>\<open>Contains s t\<close> is \<^verbatim>\<open>strings.Index(s, t) >= 0\<close>.\<close>

fun Contains :: "string \<Rightarrow> string \<Rightarrow> bool" where
  "Contains [] t = (t = [])"
| "Contains (c # s) t = (HasPrefix (c # s) t \<or> Contains s t)"

lemma TrimSuffix_append [simp]: "TrimSuffix (s @ p) p = s"
  by (simp add: TrimSuffix_def HasSuffix_def HasPrefix_def)

lemma Contains_iff: "Contains s t \<longleftrightarrow> (\<exists>a b. s = a @ t @ b)"
proof (induction s)
  case (Cons c s)
  have "HasPrefix (c # s) t \<longleftrightarrow> (\<exists>b. c # s = t @ b)"
    unfolding HasPrefix_def by (metis append_take_drop_id append_eq_conv_conj)
  with Cons show ?case by (auto simp: Cons_eq_append_conv)
qed auto

section \<open>Decimal numbers\<close>

fun nat_digits :: "nat \<Rightarrow> string" where
  "nat_digits n = (if n < 10 then [char_of (48 + n)] else nat_digits (n div 10) @ [char_of (48 + n mod 10)])"

declare nat_digits.simps [simp del]

definition Itoa :: "int \<Rightarrow> string" where
  "Itoa k = (if k < 0 then CHR ''-'' # nat_digits (nat (- k)) else nat_digits (nat k))"

text \<open>\<open>pad_int w k\<close> is \<^verbatim>\<open>fmt.Sprintf("%0wd", k)\<close>: zeros between the sign and the digits up to width \<open>w\<close>.\<close>

definition zeros :: "nat \<Rightarrow> string" where
  "zeros n = replicate n (CHR ''0'')"

definition pad_int :: "nat \<Rightarrow> int \<Rightarrow> string" where
  "pad_int w k =
     (if k < 0 then CHR ''-'' # zeros (w - 1 - length (nat_digits (nat (- k)))) @ nat_digits (nat (- k))
      else zeros (w - length (nat_digits (nat k))) @ nat_digits (nat k))"

fun digits_val :: "nat \<Rightarrow> string \<Rightarrow> nat" where
  "digits_val acc [] = acc"
| "digits_val acc (c # cs) = digits_val (10 * acc + (of_char c - 48)) cs"

definition is_digit :: "char \<Rightarrow> bool" where
  "is_digit c \<longleftrightarrow> 48 \<le> (of_char c :: nat) \<and> (of_char c :: nat) < 58"

lemma digits_val_append: "digits_val acc (a @ b) = digits_val (digits_val acc a) b"
  by (induction a arbitrary: acc) auto

lemma of_char_digit: "d < 10 \<Longrightarrow> (of_char (char_of (48 + d :: nat)) :: nat) = 48 + d"
  by (simp add: of_char_of)

lemma nat_digits_all: "list_all is_digit (nat_digits n)"
proof (induction n rule: nat_digits.induct)
  case (1 n)
  have "is_digit (char_of (48 + n mod 10))" "n < 10 \<Longrightarrow> is_digit (char_of (48 + n))"
    by (simp_all add: is_digit_def of_char_digit)
  with 1 show ?case by (subst nat_digits.simps) simp
qed

lemma nat_digits_nonempty: "nat_digits n \<noteq> []"
  by (subst nat_digits.simps) simp

lemma digits_val_nat_digits: "digits_val 0 (nat_digits n) = n"
proof (induction n rule: nat_digits.induct)
  case (1 n)
  then show ?case
    by (subst nat_digits.simps) (simp add: digits_val_append of_char_digit)
qed

lemma digits_val_zeros: "digits_val 0 (zeros k @ s) = digits_val 0 s"
  by (induction k) (simp_all add: zeros_def)

lemma digits_val_pad: "0 \<le> k \<Longrightarrow> digits_val 0 (pad_int w k) = nat k"
  by (simp add: pad_int_def digits_val_zeros digits_val_nat_digits)

lemma pad_int_inj: "0 \<le> a \<Longrightarrow> 0 \<le> b \<Longrightarrow> pad_int w a = pad_int w b \<longleftrightarrow> a = b"
  by (metis digits_val_pad int_nat_eq)

lemma nat_digits_inj: "nat_digits a = nat_digits b \<longleftrightarrow> a = b"
  by (metis digits_val_nat_digits)

lemma length_nat_digits: "n < 10 ^ k \<Longrightarrow> 0 < k \<Longrightarrow> length (nat_digits n) \<le> k"
proof (induction n arbitrary: k rule: nat_digits.induct)
  case (1 n)
  show ?case
  proof (cases "n < 10")
    case True
    then show ?thesis using "1.prems" by (subst nat_digits.simps) simp
  next
    case False
    with "1.prems" obtain j where j: "k = Suc j" "0 < j"
      by (cases k; cases "k - 1") auto
    with "1.prems"(1) have "n div 10 < 10 ^ j" by (simp add: less_mult_imp_div_less mult.commute)
    with "1.IH" [of j] False j show ?thesis by (subst nat_digits.simps) simp
  qed
qed

lemma length_pad_int: "0 \<le> k \<Longrightarrow> k < 10 ^ w \<Longrightarrow> 0 < w \<Longrightarrow> length (pad_int w k) = w"
proof -
  assume a: "0 \<le> k" "k < 10 ^ w" "0 < w"
  then have "nat k < 10 ^ w" by (simp add: nat_less_iff)
  with a length_nat_digits [of "nat k" w] show ?thesis by (simp add: pad_int_def zeros_def)
qed

lemma pad_int_all_digits: "0 \<le> k \<Longrightarrow> list_all is_digit (pad_int w k)"
  using nat_digits_all [of "nat k"]
  by (auto simp: pad_int_def zeros_def list_all_iff is_digit_def)

section \<open>Paths\<close>

fun split_slash :: "string \<Rightarrow> string list" where
  "split_slash [] = [[]]"
| "split_slash (c # s) =
     (if c = CHR ''/'' then [] # split_slash s
      else (case split_slash s of [] \<Rightarrow> [[c]] | w # ws \<Rightarrow> (c # w) # ws))"

fun join_slash :: "string list \<Rightarrow> string" where
  "join_slash [] = []"
| "join_slash [w] = w"
| "join_slash (w # ws) = w @ CHR ''/'' # join_slash ws"

text \<open>The stack of \<^verbatim>\<open>Clean\<close>, top first.\<close>

fun clean_step :: "bool \<Rightarrow> string list \<Rightarrow> string \<Rightarrow> string list" where
  "clean_step rooted st w =
     (if w = [] \<or> w = ''.'' then st
      else if w = ''..'' then
        (case st of
           [] \<Rightarrow> if rooted then [] else [w]
         | t # ts \<Rightarrow> if t = ''..'' then w # st else ts)
      else w # st)"

definition is_rooted :: "string \<Rightarrow> bool" where
  "is_rooted s \<longleftrightarrow> (case s of [] \<Rightarrow> False | c # _ \<Rightarrow> c = CHR ''/'')"

definition components :: "string \<Rightarrow> string list" where
  "components s = rev (foldl (clean_step (is_rooted s)) [] (split_slash s))"

definition render :: "bool \<Rightarrow> string list \<Rightarrow> string" where
  "render rooted cs =
     (if rooted then CHR ''/'' # join_slash cs else if cs = [] then ''.'' else join_slash cs)"

definition Clean :: "string \<Rightarrow> string" where
  "Clean s = render (is_rooted s) (components s)"

definition Join :: "string list \<Rightarrow> string" where
  "Join es = (case dropWhile (\<lambda>e. e = []) es of [] \<Rightarrow> [] | es' \<Rightarrow> Clean (join_slash es'))"

definition Ext :: "string \<Rightarrow> string" where
  "Ext s = (let w = last (split_slash s); r = takeWhile (\<lambda>c. c \<noteq> CHR ''.'') (rev w)
            in if CHR ''.'' \<in> set w then CHR ''.'' # rev r else [])"

definition Base :: "string \<Rightarrow> string" where
  "Base s =
     (if s = [] then ''.''
      else let t = rev (dropWhile (\<lambda>c. c = CHR ''/'') (rev s))
           in if t = [] then ''/'' else last (split_slash t))"

definition plain_name :: "string \<Rightarrow> bool" where
  "plain_name w \<longleftrightarrow> w \<noteq> [] \<and> w \<noteq> ''.'' \<and> w \<noteq> ''..'' \<and> CHR ''/'' \<notin> set w"

lemma split_slash_nonempty [simp]: "split_slash s \<noteq> []"
  by (cases s) (auto split: list.splits)

lemma split_slash_word: "CHR ''/'' \<notin> set w \<Longrightarrow> split_slash w = [w]"
  by (induction w) auto

lemma split_slash_append:
  "split_slash (a @ CHR ''/'' # b) = split_slash a @ split_slash b"
  by (induction a) (auto split: list.splits)

lemma split_join_slash:
  "\<forall>w\<in>set ws. CHR ''/'' \<notin> set w \<Longrightarrow> ws \<noteq> [] \<Longrightarrow> split_slash (join_slash ws) = ws"
  by (induction ws rule: join_slash.induct) (auto simp: split_slash_word split_slash_append)

lemma foldl_clean_plain:
  "\<forall>w\<in>set ws. plain_name w \<Longrightarrow> foldl (clean_step rooted) st ws = rev ws @ st"
  by (induction ws arbitrary: st) (auto simp: plain_name_def)

lemma plain_noslash: "\<forall>w\<in>set ws. plain_name w \<Longrightarrow> \<forall>w\<in>set ws. CHR ''/'' \<notin> set w"
  by (simp add: plain_name_def)

lemma is_rooted_append [simp]: "x \<noteq> [] \<Longrightarrow> is_rooted (x @ y) = is_rooted x"
  by (cases x) (simp_all add: is_rooted_def)

lemma is_rooted_plain: "plain_name w \<Longrightarrow> \<not> is_rooted w \<and> w \<noteq> []"
  by (cases w) (auto simp: is_rooted_def plain_name_def)

lemma is_rooted_render: "\<forall>w\<in>set cs. plain_name w \<Longrightarrow> is_rooted (render r cs) = r"
  by (cases cs rule: join_slash.cases) (auto simp: render_def is_rooted_plain, simp_all add: is_rooted_def)

lemma render_nonempty: "\<forall>w\<in>set cs. plain_name w \<Longrightarrow> render r cs \<noteq> []"
  by (cases cs rule: join_slash.cases) (auto simp: render_def is_rooted_plain)

lemma split_render:
  assumes "\<forall>w\<in>set cs. plain_name w"
  shows "split_slash (render r cs) =
    (if r then [] # (if cs = [] then [[]] else cs) else if cs = [] then [''.''] else cs)"
  using assms plain_noslash [OF assms] by (simp add: render_def split_join_slash)

lemma components_render:
  "\<forall>w\<in>set cs. plain_name w \<Longrightarrow> components (render r cs) = cs"
  by (auto simp: components_def split_render is_rooted_render foldl_clean_plain)

lemma Clean_render: "\<forall>w\<in>set cs. plain_name w \<Longrightarrow> Clean (render r cs) = render r cs"
  by (simp add: Clean_def components_render is_rooted_render)

text \<open>Joining plain names to a rendered path appends components.\<close>

lemma Join_render:
  assumes "\<forall>w\<in>set cs. plain_name w" and "plain_name n"
  shows "Join [render r cs, n] = render r (cs @ [n])"
proof -
  have ne: "render r cs \<noteq> []" by (rule render_nonempty [OF assms(1)])
  have n: "CHR ''/'' \<notin> set n" using assms(2) by (simp add: plain_name_def)
  have rooted: "is_rooted (render r cs @ CHR ''/'' # n) = r"
    using ne is_rooted_render [OF assms(1), of r] by simp
  have "components (render r cs @ CHR ''/'' # n) = cs @ [n]"
    unfolding components_def rooted split_slash_append split_render [OF assms(1)] split_slash_word [OF n]
    using assms foldl_clean_plain [of "cs @ [n]"] foldl_clean_plain [of "[n]"]
    by (auto simp: plain_name_def)
  then show ?thesis
    using ne by (simp add: Join_def Clean_def rooted)
qed

lemma Join_empty_base: "plain_name n \<Longrightarrow> Join [[], n] = render False [n]"
  using Clean_render [of "[n]" False] by (simp add: Join_def render_def plain_name_def)

lemma render_inj:
  assumes "\<forall>w\<in>set cs. plain_name w" and "\<forall>w\<in>set ds. plain_name w"
  shows "render r cs = render r ds \<longleftrightarrow> cs = ds"
  by (metis assms components_render)

lemma plain_digits: "list_all is_digit s \<Longrightarrow> s \<noteq> [] \<Longrightarrow> plain_name s"
  by (cases s) (auto simp: plain_name_def is_digit_def list_all_iff)

lemma plain_pad_int: "0 \<le> k \<Longrightarrow> plain_name (pad_int w k)"
  by (rule plain_digits [OF pad_int_all_digits]) (simp_all add: pad_int_def nat_digits_nonempty)

section \<open>The last component of a joined path\<close>

lemma split_slash_noslash: "w \<in> set (split_slash s) \<Longrightarrow> CHR ''/'' \<notin> set w"
proof (induction s arbitrary: w)
  case (Cons c s)
  then show ?case by (cases "split_slash s") (auto split: if_splits)
qed simp

lemma set_foldl_clean: "set (foldl (clean_step r) st ws) \<subseteq> set st \<union> set ws"
proof (induction ws arbitrary: st)
  case (Cons w ws)
  have "set (clean_step r st w) \<subseteq> insert w (set st)" by (cases st) auto
  with Cons [of "clean_step r st w"] show ?case by (simp del: clean_step.simps) blast
qed simp

lemma components_noslash: "w \<in> set (components s) \<Longrightarrow> CHR ''/'' \<notin> set w"
  using set_foldl_clean [of "is_rooted s" "[]" "split_slash s"] split_slash_noslash
  by (auto simp: components_def)

lemma components_snoc:
  assumes "split_slash s = ws @ [n]" and "plain_name n"
  shows "\<exists>xs. components s = xs @ [n]"
  using assms by (auto simp: components_def plain_name_def)

lemma components_render_snoc:
  assumes "\<forall>w\<in>set xs. CHR ''/'' \<notin> set w" and "plain_name n"
  shows "\<exists>ys. components (render r (xs @ [n])) = ys @ [n]"
proof -
  have "split_slash (join_slash (xs @ [n])) = xs @ [n]"
    using assms by (intro split_join_slash) (auto simp: plain_name_def)
  then have "split_slash (render r (xs @ [n])) = (if r then [] # xs else xs) @ [n]"
    by (simp add: render_def)
  then show ?thesis by (rule components_snoc) (rule assms(2))
qed

lemma Join_last:
  assumes "plain_name n"
  shows "\<exists>ys. components (Join [d, n]) = ys @ [n]"
proof -
  have n: "split_slash n = [n]" using assms by (simp add: split_slash_word plain_name_def)
  have "Join [d, n] = Clean (if d = [] then n else d @ CHR ''/'' # n)"
    using assms by (simp add: Join_def plain_name_def)
  moreover have "\<exists>ws. split_slash (if d = [] then n else d @ CHR ''/'' # n) = ws @ [n]"
    using n by (simp add: split_slash_append)
  then obtain xs where "components (if d = [] then n else d @ CHR ''/'' # n) = xs @ [n]"
    using components_snoc assms by blast
  moreover from this have "\<forall>w\<in>set xs. CHR ''/'' \<notin> set w"
    using components_noslash by (metis Un_iff set_append)
  ultimately show ?thesis
    using components_render_snoc [OF _ assms] by (simp add: Clean_def)
qed

lemma Join_as_render:
  assumes "plain_name n"
  shows "\<exists>r xs. Join [d, n] = render r (xs @ [n]) \<and> (\<forall>w\<in>set xs. CHR ''/'' \<notin> set w)"
proof -
  let ?s = "if d = [] then n else d @ CHR ''/'' # n"
  have n: "split_slash n = [n]" using assms by (simp add: split_slash_word plain_name_def)
  then have "\<exists>ws. split_slash ?s = ws @ [n]" by (simp add: split_slash_append)
  then obtain xs where xs: "components ?s = xs @ [n]" using components_snoc assms by blast
  moreover have "Join [d, n] = Clean ?s" using assms by (simp add: Join_def plain_name_def)
  moreover have "\<forall>w\<in>set xs. CHR ''/'' \<notin> set w"
    using xs components_noslash [of _ ?s] by (metis Un_iff set_append)
  ultimately show ?thesis by (metis Clean_def)
qed

lemma join_slash_snoc: "\<exists>pre. join_slash (xs @ [n]) = pre @ n"
proof (induction xs rule: join_slash.induct)
  case (2 w)
  have "join_slash ([w] @ [n]) = (w @ [CHR ''/'']) @ n" by simp
  then show ?case by blast
next
  case (3 w v va)
  then obtain pre where "join_slash ((v # va) @ [n]) = pre @ n" by blast
  then have "join_slash ((w # v # va) @ [n]) = (w @ CHR ''/'' # pre) @ n" by simp
  then show ?case by blast
qed simp

lemma Base_Join:
  assumes "plain_name n"
  shows "Base (Join [d, n]) = n"
proof -
  obtain r xs where j: "Join [d, n] = render r (xs @ [n])" and xs: "\<forall>w\<in>set xs. CHR ''/'' \<notin> set w"
    using Join_as_render [OF assms] by blast
  have n: "n \<noteq> []" "CHR ''/'' \<notin> set n" using assms by (simp_all add: plain_name_def)
  obtain pre0 where "join_slash (xs @ [n]) = pre0 @ n" using join_slash_snoc by blast
  then obtain pre where pre: "render r (xs @ [n]) = pre @ n"
    by (cases r) (auto simp: render_def intro: that [of "CHR ''/'' # pre0"] that [of pre0])
  have "dropWhile (\<lambda>c. c = CHR ''/'') (rev n @ rev pre) = rev n @ rev pre"
    using n by (cases n rule: rev_cases) auto
  moreover have "split_slash (render r (xs @ [n])) = (if r then [] # xs else xs) @ [n]"
    using split_join_slash [of "xs @ [n]"] xs n by (auto simp: render_def)
  ultimately show ?thesis
    using n unfolding j by (simp add: Base_def pre)
qed

end
