(* ===== verification/Go_Time.thy ===== *)
theory Go_Time
  imports Go_Path
begin

text \<open>
  Instants of package time: nanoseconds since January 1 of year 1, UTC (the zero value of
  \<^verbatim>\<open>time.Time\<close>), with the offset of the location in seconds. Calendar fields are computed from the
  proleptic Gregorian calendar as package time does; the lemmas bound them and show that year,
  day of the year and hour identify the hour.
\<close>

text \<open>Integer division of Go truncates towards zero.\<close>

definition go_div :: "int \<Rightarrow> int \<Rightarrow> int" where
  "go_div a b = (if 0 \<le> a then a div b else - ((- a) div b))"

record gotime =
  t_ns :: int
  t_off :: int

definition zero_time :: gotime where
  "zero_time = \<lparr>t_ns = 0, t_off = 0\<rparr>"

definition IsZero :: "gotime \<Rightarrow> bool" where
  "IsZero t \<longleftrightarrow> t_ns t = 0"

definition unix_epoch :: int where
  "unix_epoch = 62135596800"

definition Unix :: "gotime \<Rightarrow> int" where
  "Unix t = t_ns t div 1000000000 - unix_epoch"

definition time_Unix :: "int \<Rightarrow> int \<Rightarrow> gotime" where
  "time_Unix off secs = \<lparr>t_ns = (secs + unix_epoch) * 1000000000, t_off = off\<rparr>"

text \<open>\<^verbatim>\<open>t.Sub(u)\<close> as a duration in nanoseconds, saturated to 64 bits.\<close>

definition max_duration :: int where "max_duration = 9223372036854775807"

definition time_Sub :: "gotime \<Rightarrow> gotime \<Rightarrow> int" where
  "time_Sub t u = max (- max_duration - 1) (min max_duration (t_ns t - t_ns u))"

definition Truncate :: "gotime \<Rightarrow> int \<Rightarrow> gotime" where
  "Truncate t d = (if d \<le> 0 then t else t\<lparr>t_ns := t_ns t - t_ns t mod d\<rparr>)"

section \<open>Calendar fields\<close>

definition local_secs :: "gotime \<Rightarrow> int" where
  "local_secs t = t_ns t div 1000000000 + t_off t"

definition day_number :: "gotime \<Rightarrow> int" where
  "day_number t = local_secs t div 86400"

text \<open>Year and zero-based day of the year of the day with the given number (day 0 is January 1 of year 1).\<close>

definition year_yday :: "int \<Rightarrow> int \<times> int" where
  "year_yday d =
     (let n400 = d div 146097; r400 = d mod 146097;
          n100 = min 3 (r400 div 36524); r100 = r400 - 36524 * n100;
          n4 = r100 div 1461; r4 = r100 mod 1461;
          n1 = min 3 (r4 div 365)
      in (400 * n400 + 100 * n100 + 4 * n4 + n1 + 1, r4 - 365 * n1))"

definition Year :: "gotime \<Rightarrow> int" where
  "Year t = fst (year_yday (day_number t))"

definition YearDay :: "gotime \<Rightarrow> int" where
  "YearDay t = snd (year_yday (day_number t)) + 1"

definition Hour :: "gotime \<Rightarrow> int" where
  "Hour t = local_secs t mod 86400 div 3600"

definition Minute :: "gotime \<Rightarrow> int" where
  "Minute t = local_secs t mod 3600 div 60"

definition Second :: "gotime \<Rightarrow> int" where
  "Second t = local_secs t mod 60"

text \<open>\<^verbatim>\<open>t.Format("150405")\<close>: hours, minutes and seconds.\<close>

definition format_hms :: "gotime \<Rightarrow> string" where
  "format_hms t = pad_int 2 (Hour t) @ pad_int 2 (Minute t) @ pad_int 2 (Second t)"

text \<open>The number of the first day of a year.\<close>

definition year_start :: "int \<Rightarrow> int" where
  "year_start y = 365 * (y - 1) + (y - 1) div 4 - (y - 1) div 100 + (y - 1) div 400"

lemma year_yday_start:
  assumes "year_yday d = (y, k)"
  shows "d = year_start y + k \<and> 0 \<le> k \<and> k \<le> 365"
proof -
  define n400 r400 where "n400 = d div 146097" and "r400 = d mod 146097"
  define n100 where "n100 = min 3 (r400 div 36524)"
  define r100 where "r100 = r400 - 36524 * n100"
  define n4 r4 where "n4 = r100 div 1461" and "r4 = r100 mod 1461"
  define n1 where "n1 = min 3 (r4 div 365)"
  have yk: "y = 400 * n400 + 100 * n100 + 4 * n4 + n1 + 1" "k = r4 - 365 * n1"
    using assms by (simp_all add: year_yday_def Let_def n400_def r400_def n100_def r100_def n4_def r4_def n1_def)
  have d: "d = 146097 * n400 + r400" by (simp add: n400_def r400_def)
  have r400: "0 \<le> r400" "r400 < 146097" by (simp_all add: r400_def)
  have n100: "0 \<le> n100" "n100 \<le> 3" using r400 by (simp_all add: n100_def)
  have r100: "0 \<le> r100" "r100 \<le> 36524" "n100 < 3 \<Longrightarrow> r100 < 36524"
    using r400 unfolding r100_def n100_def min_def by (auto split: if_splits)
  have r100': "r100 = 1461 * n4 + r4" by (simp add: n4_def r4_def)
  have r4: "0 \<le> r4" "r4 < 1461" by (simp_all add: r4_def)
  have n4: "0 \<le> n4" "n4 \<le> 24" using r100 by (simp_all add: n4_def)
  have n1: "0 \<le> n1" "n1 \<le> 3" using r4 by (simp_all add: n1_def)
  have k: "0 \<le> k" "k \<le> 365"
    using r4 unfolding yk n1_def min_def by (auto split: if_splits)
  have "(y - 1) div 400 = n400" using yk n100 n4 n1 by simp
  moreover have "(y - 1) div 100 = 4 * n400 + n100" using yk n4 n1 by simp
  moreover have "(y - 1) div 4 = 100 * n400 + 25 * n100 + n4" using yk n1 by simp
  ultimately have "d = year_start y + k"
    using d r100' yk unfolding year_start_def r100_def by simp
  with k show ?thesis by simp
qed

lemma year_yday_inj: "year_yday d = year_yday d' \<Longrightarrow> d = d'"
  by (metis year_yday_start surj_pair)

lemma YearDay_bounds: "1 \<le> YearDay t" "YearDay t \<le> 366"
  using year_yday_start [of "day_number t" "Year t" "snd (year_yday (day_number t))"]
  by (simp_all add: Year_def YearDay_def)

lemma Hour_bounds: "0 \<le> Hour t" "Hour t < 24"
  unfolding Hour_def using pos_mod_bound [of 86400 "local_secs t"] by simp_all

lemma Minute_bounds: "0 \<le> Minute t" "Minute t < 60"
  unfolding Minute_def using pos_mod_bound [of 3600 "local_secs t"] by simp_all

text \<open>Year, day of the year and hour determine the hour since the beginning of the calendar.\<close>

lemma calendar_hour:
  "Year t = Year u \<and> YearDay t = YearDay u \<and> Hour t = Hour u \<longleftrightarrow>
   local_secs t div 3600 = local_secs u div 3600"
proof -
  have split: "local_secs t div 3600 = 24 * day_number t + Hour t" for t
  proof -
    have "local_secs t div 86400 = local_secs t div 3600 div 24"
      using zdiv_zmult2_eq [of 24 "local_secs t" 3600] by simp
    moreover have "local_secs t mod 86400 = 3600 * (local_secs t div 3600 mod 24) + local_secs t mod 3600"
      using zmod_zmult2_eq [of 24 "local_secs t" 3600] by simp
    ultimately show ?thesis unfolding day_number_def Hour_def by simp
  qed
  have "Year t = Year u \<and> YearDay t = YearDay u \<longleftrightarrow> day_number t = day_number u"
    unfolding Year_def YearDay_def using year_yday_inj by (metis add_right_cancel prod.collapse)
  then show ?thesis
    unfolding split using Hour_bounds [of t] Hour_bounds [of u] by auto
qed

lemma Year_positive: "0 \<le> day_number t \<Longrightarrow> 1 \<le> Year t"
  unfolding Year_def year_yday_def Let_def
  by (simp add: add_nonneg_nonneg pos_imp_zdiv_nonneg_iff)

lemma Unix_time_Unix [simp]: "Unix (time_Unix off secs) = secs"
  by (simp add: Unix_def time_Unix_def)

lemma IsZero_zero_time [simp]: "IsZero zero_time"
  by (simp add: IsZero_def zero_time_def)

text \<open>\<^verbatim>\<open>time.Second * time.Duration(n)\<close>, which wraps around.\<close>

definition Seconds :: "uint64 \<Rightarrow> int" where "Seconds n = sint (1000000000 * n)"

end
