(* ===== verification/Panda.thy ===== *)
theory Panda
  imports Go_Time
begin

text \<open>
  The packets of github.com/busoc/panda as the hadock sources see them. That package is not
  part of the repository, so nothing of it is defined here: a packet is the record of the
  values its interface methods return and of the fields the sources read, and the package's
  constants and functions are the components of a record \<open>panda\<close> that the definitions using them
  take as an argument. Fields whose integer type is declared in that package are values of
  type \<open>fixed\<close>, which carries its width.
\<close>

type_synonym Channel = uint8

record VMUHeader =
  vh_Channel :: fixed
  vh_Source :: fixed
  vh_Sequence :: uint32
  vh_Coarse :: fixed
  vh_Fine :: fixed
  vh_Timestamp :: gotime

record SDHv2 =
  sd_Properties :: fixed
  sd_Sequence :: fixed
  sd_Originator :: fixed
  sd_Acquisition :: fixed
  sd_Auxiliary :: fixed
  sd_Id :: fixed
  sd_Info :: bytes

record IDHv2 =
  id_Properties :: fixed
  id_Sequence :: fixed
  id_Originator :: fixed
  id_Acquisition :: fixed
  id_Auxiliary :: fixed
  id_Id :: fixed
  id_Type :: fixed
  id_Pixels :: "fixed list"
  id_Region :: "fixed list"
  id_Dropping :: fixed
  id_Scaling :: "fixed list"
  id_Ratio :: fixed
  id_Info :: bytes

text \<open>The dynamic types behind the header interfaces: version 1 (with the user information, for
  images), version 2, or another type.\<close>

datatype SDH = SDHv1 | SDHv2 SDHv2 | SDHother

datatype IDH = IDHv1 bytes | IDHv2 IDHv2 | IDHother

datatype packet_kind = Table SDH | Image IDH | OtherPacket

text \<open>
  \<open>hr_FCC\<close> is the four character code when the header has a method \<^verbatim>\<open>FCC\<close> (the interfaces
  \<^verbatim>\<open>panda.Four\<close> and \<^verbatim>\<open>panda.Bitmap\<close>), with \<open>hr_X\<close> and \<open>hr_Y\<close> the size of a bitmap; \<open>hr_Generated\<close>
  is the generation time of the packets that have one; the export methods give the bytes
  they write or their error.
\<close>

record HRPacket =
  hr_kind :: packet_kind
  hr_Version :: int
  hr_Stream :: Channel
  hr_Origin :: string
  hr_IsRealtime :: bool
  hr_Sequence :: uint32
  hr_Timestamp :: gotime
  hr_Generated :: "gotime option"
  hr_VMUHeader :: VMUHeader
  hr_Filename :: string
  hr_Format :: string
  hr_Payload :: bytes
  hr_FCC :: "bytes option"
  hr_X :: uint16
  hr_Y :: uint16
  hr_Export :: "bytes outcome"
  hr_ExportRaw :: "bytes outcome"
  hr_Bytes :: "bytes outcome"

record panda =
  Video1 :: Channel
  Video2 :: Channel
  Science :: Channel
  channel_String :: "Channel \<Rightarrow> string"
  AdjustGenerationTime :: "int \<Rightarrow> gotime"
  GenerationTimeFromEpoch :: "int \<Rightarrow> int"
  AcquisitionTimeFromEpoch :: "int \<Rightarrow> int"
  VMUProtocol1 :: int
  VMUProtocol2 :: int

definition is_Image :: "HRPacket \<Rightarrow> bool" where
  "is_Image p \<longleftrightarrow> (case hr_kind p of Image _ \<Rightarrow> True | _ \<Rightarrow> False)"

text \<open>\<^verbatim>\<open>bytes.Trim(bs, "\x00")\<close>: leading and trailing zero bytes removed.\<close>

definition trim_zeros :: "bytes \<Rightarrow> bytes" where
  "trim_zeros bs = rev (dropWhile (\<lambda>b. b = 0) (rev (dropWhile (\<lambda>b. b = 0) bs)))"

lemma trim_zeros_Nil: "trim_zeros bs = [] \<longleftrightarrow> (\<forall>b\<in>set bs. b = 0)"
proof -
  have "(\<forall>b\<in>set (dropWhile (\<lambda>b. b = 0) bs). b = 0) \<longleftrightarrow> (\<forall>b\<in>set bs. b = 0)"
    by (induction bs) auto
  then show ?thesis by (simp add: trim_zeros_def)
qed

text \<open>A concrete instance of the parameters and a concrete packet, for the witnesses.\<close>

definition sample_panda :: panda where
  "sample_panda = \<lparr>Video1 = 1, Video2 = 2, Science = 3,
     channel_String = (\<lambda>c. if c = 1 then ''vic1'' else if c = 2 then ''vic2'' else ''lrsd''),
     AdjustGenerationTime = (\<lambda>s. time_Unix 0 (s + 315964800)),
     GenerationTimeFromEpoch = (\<lambda>s. (s + 315964800) * 1000),
     AcquisitionTimeFromEpoch = (\<lambda>s. s * 1000),
     VMUProtocol1 = 1, VMUProtocol2 = 2\<rparr>"

definition sample_vmu_header :: VMUHeader where
  "sample_vmu_header = \<lparr>vh_Channel = U8 3, vh_Source = U8 0x36, vh_Sequence = 7, vh_Coarse = U32 1,
     vh_Fine = U16 2, vh_Timestamp = time_Unix 0 1000000\<rparr>"

definition sample_sdh :: SDHv2 where
  "sample_sdh = \<lparr>sd_Properties = U8 1, sd_Sequence = U32 7, sd_Originator = U16 2, sd_Acquisition = U64 9,
     sd_Auxiliary = U64 10, sd_Id = U8 1, sd_Info = 0x55 # replicate 31 0\<rparr>"

definition sample_table :: HRPacket where
  "sample_table = \<lparr>hr_kind = Table (SDHv2 sample_sdh), hr_Version = 2, hr_Stream = 3, hr_Origin = ''36'',
     hr_IsRealtime = True, hr_Sequence = 7, hr_Timestamp = time_Unix 0 1000000, hr_Generated = None,
     hr_VMUHeader = sample_vmu_header, hr_Filename = ''36_7.dat'', hr_Format = ''dat'', hr_Payload = [1, 2, 3],
     hr_FCC = Some [0x4d, 0x4d, 0x41, 0x20], hr_X = 0, hr_Y = 0, hr_Export = Inr [9], hr_ExportRaw = Inr [8],
     hr_Bytes = Inr [1]\<rparr>"

end
