(* ===== verification/Storage.thy ===== *)
theory Storage
  imports Go_Path Go_Sort Panda Proto
begin

text \<open>
  What all storages share (\<^verbatim>\<open>src/storage/storage.go\<close>): the filter on channels and origins, the
  composite storage, the layout of the directories packets are filed under, and the raw
  encoding of a packet. A directory layout is a function from levels to paths; its abstract
  specification is the list of components the levels stand for.
\<close>

section \<open>Filter\<close>

record Control =
  ctl_Type :: string
  ctl_Accept :: "string list"
  ctl_Reject :: "string list"

text \<open>\<^verbatim>\<open>sort.SearchStrings\<close> looks for the first element not below the string; strings compare bytewise.\<close>

definition SearchStrings :: "string list \<Rightarrow> string \<Rightarrow> nat" where
  "SearchStrings vs x = sort_Search (length vs) (\<lambda>i. x \<le> vs ! i)"

definition checkOrigin :: "string \<Rightarrow> string list \<Rightarrow> bool" where
  "checkOrigin x vs =
     (if length vs = 0 then True
      else let ix = SearchStrings vs x in ix < length vs \<and> vs ! ix = x)"

definition Can :: "panda \<Rightarrow> Control option \<Rightarrow> HRPacket \<Rightarrow> bool" where
  "Can pa ctl p =
     (case ctl of
        None \<Rightarrow> True
      | Some c \<Rightarrow>
          let check = (\<lambda>x.
            if length (ctl_Accept c) = 0 \<and> length (ctl_Reject c) = 0 then True
            else if length (ctl_Accept c) = 0 then \<not> checkOrigin x (ctl_Reject c)
            else checkOrigin x (ctl_Accept c) \<or> \<not> checkOrigin x (ctl_Reject c))
          in if ctl_Type c = '''' \<or> ctl_Type c = ''channel'' then check (channel_String pa (hr_Stream p))
             else if ctl_Type c = ''origin'' \<or> ctl_Type c = ''source'' then check (hr_Origin p)
             else False)"

section \<open>Composite storage\<close>

type_synonym 's Storage = "uint8 \<Rightarrow> HRPacket \<Rightarrow> 's \<Rightarrow> go_error option \<times> 's"

fun store_all :: "'s Storage list \<Rightarrow> go_error option \<Rightarrow> 's Storage" where
  "store_all [] err i p s = (err, s)"
| "store_all (m # ms) err i p s =
     (let (e, s) = m i p s in store_all ms (case e of None \<Rightarrow> err | Some _ \<Rightarrow> e) i p s)"

definition multistore_Store :: "'s Storage list \<Rightarrow> 's Storage" where
  "multistore_Store ms = store_all ms None"

definition Multistore :: "'s Storage list \<Rightarrow> 's Storage" where
  "Multistore ms = (case ms of [m] \<Rightarrow> m | _ \<Rightarrow> multistore_Store ms)"

text \<open>Only some storages can be closed: their closing operation is optional.\<close>

fun close_all :: "('s \<Rightarrow> go_error option \<times> 's) option list \<Rightarrow> go_error option \<Rightarrow> 's \<Rightarrow> go_error option \<times> 's" where
  "close_all [] err s = (err, s)"
| "close_all (None # cs) err s = close_all cs err s"
| "close_all (Some c # cs) err s =
     (let (e, s) = c s in close_all cs (if e \<noteq> None \<and> err = None then e else err) s)"

definition multistore_Close :: "('s \<Rightarrow> go_error option \<times> 's) option list \<Rightarrow> 's \<Rightarrow> go_error option \<times> 's" where
  "multistore_Close cs = close_all cs None"

section \<open>Levels\<close>

definition LevelClassic :: string where "LevelClassic = ''classic''"
definition LevelUPI :: string where "LevelUPI = ''upi''"
definition LevelSource :: string where "LevelSource = ''source''"
definition LevelInstance :: string where "LevelInstance = ''instance''"
definition LevelType :: string where "LevelType = ''type''"
definition LevelMode :: string where "LevelMode = ''mode''"
definition LevelYear :: string where "LevelYear = ''year''"
definition LevelDay :: string where "LevelDay = ''doy''"
definition LevelHour :: string where "LevelHour = ''hour''"
definition LevelMin :: string where "LevelMin = ''minute''"
definition LevelVMUTime :: string where "LevelVMUTime = ''vmu''"
definition LevelACQTime :: string where "LevelACQTime = ''acq''"

lemmas Level_defs = LevelClassic_def LevelUPI_def LevelSource_def LevelInstance_def LevelType_def
  LevelMode_def LevelYear_def LevelDay_def LevelHour_def LevelMin_def LevelVMUTime_def LevelACQTime_def

definition checkLevels :: "string list \<Rightarrow> string list \<Rightarrow> string list" where
  "checkLevels ls ds = (let vs = filter (\<lambda>l. l \<noteq> []) ls in if length vs = 0 then ds else vs)"

definition getVMUTime :: "panda \<Rightarrow> HRPacket \<Rightarrow> gotime" where
  "getVMUTime pa p =
     (let t = (case hr_kind p of
                 Table _ \<Rightarrow> vh_Timestamp (hr_VMUHeader p)
               | Image _ \<Rightarrow> vh_Timestamp (hr_VMUHeader p)
               | OtherPacket \<Rightarrow> zero_time)
      in AdjustGenerationTime pa (Unix t))"

definition getACQTime :: "HRPacket \<Rightarrow> gotime" where
  "getACQTime p = hr_Timestamp p"

definition trim_upi :: "bytes \<Rightarrow> string" where
  "trim_upi bs = map (\<lambda>c. if c = CHR '' '' then CHR ''-'' else c) (string_of_bytes (trim_zeros bs))"

definition getUPI :: "HRPacket \<Rightarrow> string" where
  "getUPI p =
     (let upi = (case hr_kind p of Table _ \<Rightarrow> ''SCIENCES'' | Image _ \<Rightarrow> ''IMAGES'' | OtherPacket \<Rightarrow> '''');
          u = (case hr_kind p of
                 Table (SDHv2 v) \<Rightarrow> trim_upi (sd_Info v)
               | Image (IDHv1 info) \<Rightarrow> trim_upi info
               | Image (IDHv2 v) \<Rightarrow> trim_upi (id_Info v)
               | _ \<Rightarrow> '''')
      in if 0 < length u then u else upi)"

definition mode_name :: "HRPacket \<Rightarrow> string" where
  "mode_name p = (if hr_IsRealtime p then ''realtime'' else ''playback'')"

definition modeDir :: "string \<Rightarrow> HRPacket \<Rightarrow> string" where
  "modeDir base p = Join [base, mode_name p]"

definition type_name :: "HRPacket \<Rightarrow> string" where
  "type_name p = (case hr_kind p of Table _ \<Rightarrow> ''sciences'' | Image _ \<Rightarrow> ''images'' | OtherPacket \<Rightarrow> ''unknown'')"

definition typeDir :: "string \<Rightarrow> HRPacket \<Rightarrow> string" where
  "typeDir base p = Join [base, type_name p]"

definition instance_name :: "uint8 \<Rightarrow> string" where
  "instance_name i =
     (if i = TEST then ''TEST''
      else if i = SIM1 \<or> i = SIM2 then ''SIM'' @ Itoa (uint i)
      else if i = OPS then ''OPS''
      else ''DATA-'' @ Itoa (uint i))"

definition instanceDir :: "string \<Rightarrow> uint8 \<Rightarrow> string" where
  "instanceDir base i = Join [base, instance_name i]"

text \<open>The levels that stand for other levels weigh more than these, so that the recursion ends.\<close>

definition level_weight :: "string \<Rightarrow> nat" where
  "level_weight n = (if ToLower n \<in> {''classic'', ''vmu'', ''acq''} then 6 else 1)"

function prepareDirectory ::
  "panda \<Rightarrow> string \<Rightarrow> string list \<Rightarrow> int \<Rightarrow> uint8 \<Rightarrow> HRPacket \<Rightarrow> gotime \<Rightarrow> string" where
  "prepareDirectory pa base [] g i p t = base"
| "prepareDirectory pa base (n # ns) g i p t =
     (let l = ToLower n;
          base' =
            (if l = LevelClassic then
               prepareDirectory pa base [LevelInstance, LevelType, LevelMode, LevelSource] g i p t
             else if l = LevelUPI then Join [base, getUPI p]
             else if l = LevelInstance then instanceDir base i
             else if l = LevelType then typeDir base p
             else if l = LevelMode then modeDir base p
             else if l = LevelSource then Join [base, hr_Origin p]
             else if l = LevelYear then Join [base, pad_int 4 (Year t)]
             else if l = LevelDay then Join [base, pad_int 3 (YearDay t)]
             else if l = LevelHour then Join [base, pad_int 2 (Hour t)]
             else if l = LevelMin then
               (if 0 < g then Join [base, pad_int 2 (Minute (Truncate t (1000000000 * g)))] else base)
             else if l = LevelVMUTime then
               prepareDirectory pa base [LevelYear, LevelDay, LevelHour, LevelMin] g i p (getVMUTime pa p)
             else if l = LevelACQTime then
               prepareDirectory pa base [LevelYear, LevelDay, LevelHour, LevelMin] g i p (getACQTime p)
             else Join [base, n])
      in prepareDirectory pa base' ns g i p t)"
  by pat_completeness auto
termination
  by (relation "measure (\<lambda>(pa, base, ls, g, i, p, t). sum_list (map level_weight ls))")
    (auto simp: level_weight_def Level_defs ToLower_def ascii_lower_def)

declare prepareDirectory.simps(2) [simp del]

record dirmaker =
  dm_Levels :: "string list"
  dm_Base :: string
  dm_Time :: string
  dm_Interval :: int

definition NewDirectory :: "string \<Rightarrow> string \<Rightarrow> string list \<Rightarrow> int \<Rightarrow> dirmaker" where
  "NewDirectory base tm levels interval =
     \<lparr>dm_Levels = checkLevels levels [LevelClassic, LevelVMUTime], dm_Base = base, dm_Time = tm,
      dm_Interval = interval\<rparr>"

text \<open>The directory \<^verbatim>\<open>Prepare\<close> asks the operating system to create.\<close>

definition prepare_time :: "panda \<Rightarrow> dirmaker \<Rightarrow> HRPacket \<Rightarrow> gotime" where
  "prepare_time pa d p =
     (let l = ToLower (dm_Time d);
          t = (if l = ''vmu'' \<or> l = '''' then getVMUTime pa p else if l = ''acq'' then getACQTime p else zero_time)
      in if IsZero t then hr_Timestamp p else t)"

definition prepare_path :: "panda \<Rightarrow> dirmaker \<Rightarrow> uint8 \<Rightarrow> HRPacket \<Rightarrow> string" where
  "prepare_path pa d i p =
     prepareDirectory pa (dm_Base d) (dm_Levels d) (dm_Interval d) i p (prepare_time pa d p)"

section \<open>Raw encoding\<close>

text \<open>
  A packet whose header has a four character code is written with that code, its sequence
  counter, its acquisition time and, for an image, its size; others are exported by the
  package they come from. A packet that is neither table nor image gives no bytes.
\<close>

definition raw_time :: "HRPacket \<Rightarrow> bytes" where
  "raw_time p =
     (case hr_kind p of
        Table (SDHv2 s) \<Rightarrow> fixed_be (sd_Acquisition s)
      | Image (IDHv2 v) \<Rightarrow> fixed_be (id_Acquisition v)
      | _ \<Rightarrow> be64 (of_int (Unix (hr_Timestamp p))))"

definition encodeRawPacket :: "HRPacket \<Rightarrow> bytes outcome" where
  "encodeRawPacket p =
     (case hr_kind p of
        Table _ \<Rightarrow>
          (case hr_FCC p of
             None \<Rightarrow> hr_ExportRaw p
           | Some fcc \<Rightarrow> Inr (fcc @ be32 (hr_Sequence p) @ raw_time p @ hr_Payload p))
      | Image _ \<Rightarrow>
          (case hr_FCC p of
             None \<Rightarrow> hr_ExportRaw p
           | Some fcc \<Rightarrow>
               Inr (fcc @ be32 (hr_Sequence p) @ raw_time p @ be16 (hr_X p) @ be16 (hr_Y p) @ hr_Payload p))
      | OtherPacket \<Rightarrow> Inr [])"

section \<open>Properties of the filter\<close>

lemma checkOrigin_sorted: "sorted vs \<Longrightarrow> checkOrigin x vs \<longleftrightarrow> vs = [] \<or> x \<in> set vs"
  using ascending.search_member [of vs x] by (auto simp: checkOrigin_def SearchStrings_def Let_def)

definition control_value :: "panda \<Rightarrow> Control \<Rightarrow> HRPacket \<Rightarrow> string option" where
  "control_value pa c p =
     (if ctl_Type c \<in> {'''', ''channel''} then Some (channel_String pa (hr_Stream p))
      else if ctl_Type c \<in> {''origin'', ''source''} then Some (hr_Origin p) else None)"

text \<open>
  With both lists sorted, the filter of a storage decides as follows: an unknown kind of
  filter refuses everything; without lists every packet passes; an accept list alone lets its
  members pass, a reject list alone everything but its members; with both lists a packet passes
  when it is accepted or not rejected, so that a value in neither list passes, and a value in
  both.
\<close>

theorem Can_iff:
  assumes "sorted (ctl_Accept c)" and "sorted (ctl_Reject c)"
  shows "Can pa (Some c) p \<longleftrightarrow>
    (case control_value pa c p of
       None \<Rightarrow> False
     | Some x \<Rightarrow>
         if ctl_Accept c = [] then x \<notin> set (ctl_Reject c)
         else x \<in> set (ctl_Accept c) \<or> ctl_Reject c \<noteq> [] \<and> x \<notin> set (ctl_Reject c))"
  using assms by (auto simp: Can_def control_value_def checkOrigin_sorted)

theorem Can_iff_witness:
  "\<not> Can sample_panda (Some \<lparr>ctl_Type = ''origin'', ctl_Accept = [], ctl_Reject = [''35'', ''36'']\<rparr>) sample_table"
  by (subst Can_iff) (simp_all add: control_value_def sample_table_def)

text \<open>
  The lists are searched by bisection but nothing sorts them: with two accepted origins
  given in descending order, packets of the smaller one are refused.
\<close>

theorem Can_unsorted_refuses:
  assumes "a < b" and "hr_Origin p = a"
  shows "\<not> Can pa (Some \<lparr>ctl_Type = ''origin'', ctl_Accept = [b, a], ctl_Reject = []\<rparr>) p"
proof -
  have "sort_Search 2 (\<lambda>i. a \<le> [b, a] ! i) = 0"
    using assms(1) by (simp add: sort_Search_def search_loop.simps [of _ 0 2] search_loop.simps [of _ 0 "Suc 0"]
        search_loop.simps [of _ 0 0] less_imp_le)
  then have "\<not> checkOrigin a [b, a]"
    using assms(1) by (auto simp: checkOrigin_def SearchStrings_def numeral_2_eq_2)
  moreover have "checkOrigin a []" by (simp add: checkOrigin_def)
  ultimately show ?thesis using assms(2) by (simp add: Can_def)
qed

theorem Can_unsorted_refuses_witness:
  "\<not> Can sample_panda (Some \<lparr>ctl_Type = ''origin'', ctl_Accept = [''39'', ''36''], ctl_Reject = []\<rparr>) sample_table"
  by (rule Can_unsorted_refuses) (simp_all add: sample_table_def less_char_def)

section \<open>Properties of the composite storage\<close>

definition last_error :: "go_error option list \<Rightarrow> go_error option" where
  "last_error es = first_error (rev es)"

lemma first_error_append: "first_error (a @ b) = (case first_error a of None \<Rightarrow> first_error b | Some e \<Rightarrow> Some e)"
  by (induction a rule: first_error.induct) auto

lemma store_all_run_all:
  "store_all ms err i p s =
   (let (es, s') = run_all (map (\<lambda>m. m i p) ms) s
    in (case last_error es of None \<Rightarrow> err | Some e \<Rightarrow> Some e, s'))"
proof (induction ms arbitrary: err s)
  case (Cons m ms)
  obtain e s' where m: "m i p s = (e, s')" by fastforce
  show ?case
    using Cons.IH [of _ s'] m
    by (cases e) (auto simp: Let_def last_error_def first_error_append split: prod.splits option.splits)
qed (simp add: last_error_def)

lemma close_all_run_all:
  "close_all cs err s =
   (let (es, s') = run_all (map the (filter (\<lambda>c. c \<noteq> None) cs)) s
    in (if err = None then first_error es else err, s'))"
proof (induction cs err s rule: close_all.induct)
  case (3 c cs err s)
  obtain e s' where c: "c s = (e, s')" by fastforce
  show ?case
    using "3.IH" [OF c [symmetric] refl] c by (cases e) (auto simp: Let_def split: prod.splits)
qed auto

lemma Multistore_list: "Multistore ms i p s = multistore_Store ms i p s"
proof -
  have "Multistore [m] i p s = multistore_Store [m] i p s" for m
    by (auto simp: Multistore_def multistore_Store_def split: prod.splits option.splits)
  then show ?thesis by (cases ms rule: list.exhaust; cases "tl ms") (auto simp: Multistore_def)
qed

text \<open>
  A set of storages is a storage: the packet is given to every one of them, in the order of
  the configuration and whatever the others return, and the result is the last error. Closing
  them closes every one that can be closed and returns the first error.
\<close>

theorem Multistore_fan_out:
  "Multistore ms i p s =
     (let (es, s') = run_all (map (\<lambda>m. m i p) ms) s in (last_error es, s')) \<and>
   multistore_Close cs s =
     (let (es, s') = run_all (map the (filter (\<lambda>c. c \<noteq> None) cs)) s in (first_error es, s'))"
  by (auto simp: Multistore_list multistore_Store_def store_all_run_all multistore_Close_def close_all_run_all Let_def
      split: prod.splits option.splits)

section \<open>Properties of the directory layout\<close>

text \<open>The abstract layout: the components a level stands for.\<close>

definition time_names :: "int \<Rightarrow> gotime \<Rightarrow> string list" where
  "time_names g t =
     [pad_int 4 (Year t), pad_int 3 (YearDay t), pad_int 2 (Hour t)] @
     (if 0 < g then [pad_int 2 (Minute (Truncate t (1000000000 * g)))] else [])"

definition classic_names :: "uint8 \<Rightarrow> HRPacket \<Rightarrow> string list" where
  "classic_names i p = [instance_name i, type_name p, mode_name p, hr_Origin p]"

definition level_names :: "panda \<Rightarrow> int \<Rightarrow> uint8 \<Rightarrow> HRPacket \<Rightarrow> gotime \<Rightarrow> string \<Rightarrow> string list" where
  "level_names pa g i p t n =
     (let l = ToLower n in
      if l = ''classic'' then classic_names i p
      else if l = ''upi'' then [getUPI p]
      else if l = ''instance'' then [instance_name i]
      else if l = ''type'' then [type_name p]
      else if l = ''mode'' then [mode_name p]
      else if l = ''source'' then [hr_Origin p]
      else if l = ''year'' then [pad_int 4 (Year t)]
      else if l = ''doy'' then [pad_int 3 (YearDay t)]
      else if l = ''hour'' then [pad_int 2 (Hour t)]
      else if l = ''minute'' then
        (if 0 < g then [pad_int 2 (Minute (Truncate t (1000000000 * g)))] else [])
      else if l = ''vmu'' then time_names g (getVMUTime pa p)
      else if l = ''acq'' then time_names g (getACQTime p)
      else [n])"

definition layout :: "panda \<Rightarrow> string list \<Rightarrow> int \<Rightarrow> uint8 \<Rightarrow> HRPacket \<Rightarrow> gotime \<Rightarrow> string list" where
  "layout pa levels g i p t = concat (map (level_names pa g i p t) levels)"

lemma ToLower_levels [simp]:
  "ToLower ''instance'' = ''instance''" "ToLower ''type'' = ''type''" "ToLower ''mode'' = ''mode''"
  "ToLower ''source'' = ''source''" "ToLower ''year'' = ''year''" "ToLower ''doy'' = ''doy''"
  "ToLower ''hour'' = ''hour''" "ToLower ''minute'' = ''minute''" "ToLower ''upi'' = ''upi''"
  "ToLower ''classic'' = ''classic''" "ToLower ''vmu'' = ''vmu''" "ToLower ''acq'' = ''acq''"
  by (simp_all add: ToLower_def ascii_lower_def)

lemmas dir_defs = instanceDir_def typeDir_def modeDir_def

lemma prepareDirectory_classic:
  assumes "\<forall>w\<in>set cs. plain_name w" and "\<forall>w\<in>set (classic_names i p). plain_name w"
  shows "prepareDirectory pa (render r cs) [LevelInstance, LevelType, LevelMode, LevelSource] g i p t =
    render r (cs @ classic_names i p)"
  using assms
  by (simp add: prepareDirectory.simps(2) Level_defs dir_defs classic_names_def Join_render)

lemma prepareDirectory_time:
  assumes "\<forall>w\<in>set cs. plain_name w" and "\<forall>w\<in>set (time_names g t). plain_name w"
  shows "prepareDirectory pa (render r cs) [LevelYear, LevelDay, LevelHour, LevelMin] g i p t =
    render r (cs @ time_names g t)"
  using assms
  by (simp add: prepareDirectory.simps(2) Level_defs time_names_def Join_render)

lemma prepareDirectory_level:
  assumes "\<forall>w\<in>set cs. plain_name w" and "\<forall>w\<in>set (level_names pa g i p t n). plain_name w"
  shows "prepareDirectory pa (render r cs) (n # ns) g i p t =
    prepareDirectory pa (render r (cs @ level_names pa g i p t n)) ns g i p t"
proof (cases "ToLower n \<in> {''classic'', ''upi'', ''instance'', ''type'', ''mode'', ''source'', ''year'',
    ''doy'', ''hour'', ''minute'', ''vmu'', ''acq''}")
  case True
  note laws = prepareDirectory_classic [unfolded Level_defs] prepareDirectory_time [unfolded Level_defs]
    Join_render dir_defs
  from True show ?thesis
    using assms unfolding prepareDirectory.simps(2) [of pa _ n ns] Level_defs level_names_def Let_def
    by (elim insertE emptyE) (simp_all add: laws)
next
  case False
  then have "level_names pa g i p t n = [n]" by (simp add: level_names_def)
  with False assms show ?thesis
    by (subst prepareDirectory.simps(2)) (simp add: Level_defs Join_render)
qed

text \<open>
  C19. The directory of a packet is the base directory followed, level by level, by the components the
  levels stand for, provided these are plain names (no separator, no dot names): the
  code that joins strings implements the abstract layout.
\<close>

theorem prepareDirectory_layout:
  assumes "\<forall>w\<in>set cs. plain_name w" and "\<forall>w\<in>set (layout pa levels g i p t). plain_name w"
  shows "prepareDirectory pa (render r cs) levels g i p t = render r (cs @ layout pa levels g i p t)"
  using assms
proof (induction levels arbitrary: cs)
  case (Cons n ns)
  then have plain: "\<forall>w\<in>set (level_names pa g i p t n). plain_name w"
    "\<forall>w\<in>set (layout pa ns g i p t). plain_name w" by (simp_all add: layout_def)
  with Cons show ?case
    using Cons.IH [of "cs @ level_names pa g i p t n"]
    by (simp add: prepareDirectory_level ball_Un) (simp add: layout_def)
qed (simp add: layout_def)

theorem prepareDirectory_layout_witness:
  "prepareDirectory sample_panda ''/data'' [''classic'', ''year'', ''hrd''] 0 255 sample_table (time_Unix 0 0) =
     render True ([''data''] @ layout sample_panda [''classic'', ''year'', ''hrd''] 0 255 sample_table (time_Unix 0 0))"
proof -
  have "\<forall>w\<in>set (layout sample_panda [''classic'', ''year'', ''hrd''] 0 255 sample_table (time_Unix 0 0)). plain_name w"
    by code_simp
  then show ?thesis
    using prepareDirectory_layout [of "[''data'']" sample_panda "[''classic'', ''year'', ''hrd'']" 0 255 sample_table
        "time_Unix 0 0" True]
    by (simp add: plain_name_def render_def)
qed

lemma Itoa_uint_inj: "Itoa (uint a) = Itoa (uint b) \<longleftrightarrow> a = (b :: uint8)"
  by (simp add: Itoa_def nat_digits_inj word_unat_eq_iff)

lemma instance_name_inj: "instance_name a = instance_name b \<longleftrightarrow> a = b"
  by (auto simp: instance_name_def Itoa_uint_inj split: if_splits)

lemma instance_name_plain: "plain_name (instance_name i)"
proof -
  have "CHR ''/'' \<notin> set (Itoa (uint i))"
    using nat_digits_all [of "nat (uint i)"] by (auto simp: Itoa_def list_all_iff is_digit_def)
  then show ?thesis by (auto simp: instance_name_def plain_name_def)
qed

lemma type_mode_plain: "plain_name (type_name p)" "plain_name (mode_name p)"
  by (auto simp: type_name_def mode_name_def plain_name_def split: packet_kind.splits)

lemma time_names_plain: "0 \<le> day_number t \<Longrightarrow> \<forall>w\<in>set (time_names g t). plain_name w"
  using Year_positive [of t] YearDay_bounds [of t] Hour_bounds [of t] Minute_bounds
  by (auto simp: time_names_def intro!: plain_pad_int)

definition packet_class :: "HRPacket \<Rightarrow> nat" where
  "packet_class p = (case hr_kind p of Table _ \<Rightarrow> 0 | Image _ \<Rightarrow> 1 | OtherPacket \<Rightarrow> 2)"

lemma type_name_inj: "type_name p = type_name q \<longleftrightarrow> packet_class p = packet_class q"
  by (auto simp: type_name_def packet_class_def split: packet_kind.splits)

lemma mode_name_inj: "mode_name p = mode_name q \<longleftrightarrow> hr_IsRealtime p = hr_IsRealtime q"
  by (auto simp: mode_name_def)

lemma time_names_inj:
  assumes "time_names g t = time_names g u" and "0 \<le> day_number t" and "0 \<le> day_number u"
  shows "local_secs t div 3600 = local_secs u div 3600 \<and>
    (0 < g \<longrightarrow> Minute (Truncate t (1000000000 * g)) = Minute (Truncate u (1000000000 * g)))"
proof -
  note pos = Year_positive [OF assms(2)] Year_positive [OF assms(3)] YearDay_bounds [of t] YearDay_bounds [of u]
    Hour_bounds [of t] Hour_bounds [of u] Minute_bounds
  from assms(1) pos have "Year t = Year u \<and> YearDay t = YearDay u \<and> Hour t = Hour u"
    by (auto simp: time_names_def pad_int_inj split: if_splits)
  moreover have "0 < g \<Longrightarrow> Minute (Truncate t (1000000000 * g)) = Minute (Truncate u (1000000000 * g))"
    using assms(1) pos by (auto simp: time_names_def pad_int_inj)
  ultimately show ?thesis using calendar_hour [of t u] by blast
qed

text \<open>
  C20. The default layout (instance, type, mode, origin, then year, day, hour and minute of
  the VMU time) keeps packets apart: two packets filed in the same directory
  have the same instance, the same kind, the same mode and the same origin, and their VMU times fall into the
  same hour and, when an interval is set, the same minute slot.
\<close>

theorem default_layout_separates:
  assumes "\<forall>w\<in>set cs. plain_name w" and "plain_name (hr_Origin p)" and "plain_name (hr_Origin q)"
    and "0 \<le> day_number (getVMUTime pa p)" and "0 \<le> day_number (getVMUTime pa q)"
    and "dm_Levels d = checkLevels [] [LevelClassic, LevelVMUTime]" and "dm_Base d = render r cs"
    and "prepare_path pa d i p = prepare_path pa d j q"
  shows "i = j \<and> packet_class p = packet_class q \<and> hr_IsRealtime p = hr_IsRealtime q \<and>
    hr_Origin p = hr_Origin q \<and>
    local_secs (getVMUTime pa p) div 3600 = local_secs (getVMUTime pa q) div 3600 \<and>
    (0 < dm_Interval d \<longrightarrow>
       Minute (Truncate (getVMUTime pa p) (1000000000 * dm_Interval d)) =
       Minute (Truncate (getVMUTime pa q) (1000000000 * dm_Interval d)))"
proof -
  let ?g = "dm_Interval d"
  have levels: "dm_Levels d = [''classic'', ''vmu'']"
    by (simp add: assms(6) checkLevels_def Level_defs)
  define names where "names x y = classic_names x y @ time_names ?g (getVMUTime pa y)" for x y
  have lay: "layout pa [''classic'', ''vmu''] ?g x y t = names x y" for x y t
    by (simp add: layout_def level_names_def names_def)
  have plain: "\<forall>w\<in>set (names i p). plain_name w" "\<forall>w\<in>set (names j q). plain_name w"
    using assms(2-5) time_names_plain
    by (auto simp: names_def classic_names_def instance_name_plain type_mode_plain)
  have path: "prepare_path pa d x y = render r (cs @ names x y)" if "\<forall>w\<in>set (names x y). plain_name w" for x y
    using prepareDirectory_layout [OF assms(1), of pa "[''classic'', ''vmu'']" ?g x y "prepare_time pa d y" r] that
    by (simp add: prepare_path_def levels assms(7) lay)
  have "render r (cs @ names i p) = render r (cs @ names j q)"
    using assms(8) path plain by simp
  then have "names i p = names j q"
    using render_inj [of "cs @ names i p" "cs @ names j q" r] plain assms(1) by (auto simp: ball_Un)
  then have "classic_names i p = classic_names j q"
    and t: "time_names ?g (getVMUTime pa p) = time_names ?g (getVMUTime pa q)"
    by (simp_all add: names_def classic_names_def)
  with time_names_inj [OF t assms(4,5)] show ?thesis
    by (simp add: classic_names_def instance_name_inj type_name_inj mode_name_inj)
qed

theorem default_layout_separates_witness:
  "local_secs (getVMUTime sample_panda sample_table) div 3600 =
   local_secs (getVMUTime sample_panda (sample_table\<lparr>hr_Sequence := 8\<rparr>)) div 3600"
proof -
  let ?q = "sample_table\<lparr>hr_Sequence := 8\<rparr>" and ?d = "NewDirectory ''/data'' [] [] 0"
  have "plain_name (hr_Origin sample_table)" "plain_name (hr_Origin ?q)"
    "0 \<le> day_number (getVMUTime sample_panda sample_table)" "0 \<le> day_number (getVMUTime sample_panda ?q)"
    "prepare_path sample_panda ?d 255 sample_table = prepare_path sample_panda ?d 255 ?q" by code_simp+
  moreover have "dm_Base ?d = render True [''data'']" by (simp add: NewDirectory_def render_def)
  moreover have "dm_Levels ?d = checkLevels [] [LevelClassic, LevelVMUTime]" by (simp add: NewDirectory_def)
  moreover have "\<forall>w\<in>set [''data'']. plain_name w" by (simp add: plain_name_def)
  ultimately show ?thesis
    using default_layout_separates [of "[''data'']" sample_table ?q sample_panda ?d True 255 255] by blast
qed

text \<open>
  The level \<^verbatim>\<open>upi\<close> takes its component from the user information of the packet header, which the
  storage does not check: a packet whose user information contains parent directories is filed outside the
  directory of the storage.
\<close>

theorem upi_escapes_base:
  assumes "hr_kind p = Table (SDHv2 s)"
    and "sd_Info s = bytes_of_string ''../../etc/x'' @ replicate 20 0"
  shows "prepareDirectory pa ''/srv/hrd'' [''upi''] g i p t = ''/etc/x''"
proof -
  have "getUPI p = ''../../etc/x''"
    using assms by (simp add: getUPI_def trim_upi_def) code_simp
  moreover have "Join [''/srv/hrd'', ''../../etc/x''] = ''/etc/x''" by code_simp
  ultimately show ?thesis
    by (subst prepareDirectory.simps(2)) (simp add: Level_defs)
qed

theorem upi_escapes_base_witness:
  "prepareDirectory sample_panda ''/srv/hrd'' [''upi''] 0 255
     (sample_table\<lparr>hr_kind := Table (SDHv2 (sample_sdh\<lparr>sd_Info := bytes_of_string ''../../etc/x'' @ replicate 20 0\<rparr>))\<rparr>)
     zero_time = ''/etc/x''"
  by (rule upi_escapes_base, simp, simp)

section \<open>Storages that keep an invariant\<close>

text \<open>The contract between a storage and its clients: every store keeps an invariant of the world, whether it fails or not.\<close>

locale invariant_storage =
  fixes store :: "'s Storage"
    and safe :: "'s \<Rightarrow> bool"
  assumes store_inv: "safe s \<Longrightarrow> safe (snd (store i p s))"
begin

lemma stores_inv: "safe s \<Longrightarrow> safe (snd (run_all (map (\<lambda>(i, p). store i p) xs) s))"
proof (induction xs arbitrary: s)
  case (Cons x xs)
  obtain i p where x: "x = (i, p)" by fastforce
  with Cons store_inv [OF Cons.prems, of i p] show ?case by (simp add: case_prod_beta)
qed simp

end

lemma run_all_inv:
  assumes "\<forall>op\<in>set ops. \<forall>s. safe s \<longrightarrow> safe (snd (op s))" and "safe s"
  shows "safe (snd (run_all ops s))"
  using assms
proof (induction ops arbitrary: s)
  case (Cons op ops)
  then have "safe (snd (op s))" by simp
  with Cons show ?case by (simp add: case_prod_beta)
qed simp

lemma Multistore_run_all: "snd (Multistore ms i p s) = snd (run_all (map (\<lambda>m. m i p) ms) s)"
  by (simp add: Multistore_list multistore_Store_def store_all_run_all case_prod_beta)

lemma Multistore_invariant:
  assumes "\<forall>m\<in>set ms. invariant_storage m safe"
  shows "invariant_storage (Multistore ms) safe"
proof
  fix s i p
  assume "safe s"
  moreover have "\<forall>op\<in>set (map (\<lambda>m. m i p) ms). \<forall>s. safe s \<longrightarrow> safe (snd (op s))"
    using assms by (auto simp: invariant_storage_def)
  ultimately show "safe (snd (Multistore ms i p s))"
    unfolding Multistore_run_all by (rule run_all_inv [rotated])
qed

end
