(* ===== verification/Go_FS.thy ===== *)
theory Go_FS
  imports Go_Path "HOL-Library.AList"
begin

text \<open>
  The file system as the storages see it (package os): a table of directory entries over a
  store of file contents, so that hard links share their contents. An entry is a directory,
  a regular file (the number of its contents) or a symbolic link. The operations fail for the structural reasons
  (missing directory, name taken, not a directory); directories are never symbolic links here. The interface
  \<open>file_tree\<close> states the laws the storages rely on.
\<close>

type_synonym loc = "bool \<times> string list"

datatype node = Dir | File nat | Symlink string

record fs =
  fs_tab :: "(loc \<times> node) list"
  fs_data :: "nat \<Rightarrow> bytes"
  fs_next :: nat

abbreviation ENOENT :: go_error where "ENOENT \<equiv> ErrIO 2"
abbreviation EEXIST :: go_error where "EEXIST \<equiv> ErrIO 17"
abbreviation ENOTDIR :: go_error where "ENOTDIR \<equiv> ErrIO 20"
abbreviation EISDIR :: go_error where "EISDIR \<equiv> ErrIO 21"
abbreviation ENOTEMPTY :: go_error where "ENOTEMPTY \<equiv> ErrIO 39"
abbreviation ELOOP :: go_error where "ELOOP \<equiv> ErrIO 40"

definition locate :: "string \<Rightarrow> loc" where
  "locate s = (is_rooted s, components s)"

definition parent :: "loc \<Rightarrow> loc" where
  "parent l = (fst l, butlast (snd l))"

text \<open>The root and the working directory always exist.\<close>

definition node_at :: "fs \<Rightarrow> loc \<Rightarrow> node option" where
  "node_at f l = (if snd l = [] then Some Dir else map_of (fs_tab f) l)"

definition set_node :: "loc \<Rightarrow> node \<Rightarrow> fs \<Rightarrow> fs" where
  "set_node l n f = f\<lparr>fs_tab := AList.update l n (fs_tab f)\<rparr>"

definition del_node :: "loc \<Rightarrow> fs \<Rightarrow> fs" where
  "del_node l f = f\<lparr>fs_tab := AList.delete l (fs_tab f)\<rparr>"

definition link_target :: "loc \<Rightarrow> string \<Rightarrow> loc" where
  "link_target l t = (if is_rooted t then locate t else locate (Join [render (fst l) (butlast (snd l)), t]))"

text \<open>Symbolic links are followed at most 40 times, as Linux does.\<close>

fun chase :: "nat \<Rightarrow> fs \<Rightarrow> loc \<Rightarrow> loc option" where
  "chase 0 f l = None"
| "chase (Suc n) f l = (case node_at f l of Some (Symlink t) \<Rightarrow> chase n f (link_target l t) | _ \<Rightarrow> Some l)"

definition Stat :: "fs \<Rightarrow> string \<Rightarrow> node option" where
  "Stat f p = (case chase 40 f (locate p) of None \<Rightarrow> None | Some l \<Rightarrow> node_at f l)"

definition ReadFile :: "fs \<Rightarrow> string \<Rightarrow> bytes option" where
  "ReadFile f p = (case Stat f p of Some (File i) \<Rightarrow> Some (fs_data f i) | _ \<Rightarrow> None)"

fun mkdir_steps :: "bool \<Rightarrow> string list \<Rightarrow> string list \<Rightarrow> fs \<Rightarrow> go_error option \<times> fs" where
  "mkdir_steps r pre [] f = (None, f)"
| "mkdir_steps r pre (c # cs) f =
     (case node_at f (r, pre @ [c]) of
        Some Dir \<Rightarrow> mkdir_steps r (pre @ [c]) cs f
      | Some (File _) \<Rightarrow> (Some ENOTDIR, f)
      | Some (Symlink _) \<Rightarrow> (Some ENOTDIR, f)
      | None \<Rightarrow> mkdir_steps r (pre @ [c]) cs (set_node (r, pre @ [c]) Dir f))"

definition MkdirAll :: "string \<Rightarrow> fs \<Rightarrow> go_error option \<times> fs" where
  "MkdirAll p f = (if p = [] then (Some ENOENT, f) else mkdir_steps (is_rooted p) [] (components p) f)"

text \<open>\<^verbatim>\<open>ioutil.WriteFile\<close>: creates the file or truncates the contents it shares with its hard links.\<close>

definition WriteFile :: "string \<Rightarrow> bytes \<Rightarrow> fs \<Rightarrow> go_error option \<times> fs" where
  "WriteFile p bs f =
     (case chase 40 f (locate p) of
        None \<Rightarrow> (Some ELOOP, f)
      | Some l \<Rightarrow>
          (case node_at f l of
             Some (File i) \<Rightarrow> (None, f\<lparr>fs_data := (fs_data f)(i := bs)\<rparr>)
           | Some _ \<Rightarrow> (Some EISDIR, f)
           | None \<Rightarrow>
               if node_at f (parent l) = Some Dir
               then (None, set_node l (File (fs_next f))
                       (f\<lparr>fs_data := (fs_data f)(fs_next f := bs), fs_next := fs_next f + 1\<rparr>))
               else (Some ENOENT, f)))"

definition Remove :: "string \<Rightarrow> fs \<Rightarrow> go_error option \<times> fs" where
  "Remove p f =
     (let l = locate p in
      case node_at f l of
        None \<Rightarrow> (Some ENOENT, f)
      | Some Dir \<Rightarrow>
          if list_all (\<lambda>(k, n). parent k \<noteq> l) (fs_tab f) \<and> snd l \<noteq> [] then (None, del_node l f)
          else (Some ENOTEMPTY, f)
      | Some _ \<Rightarrow> (None, del_node l f))"

definition os_Link :: "string \<Rightarrow> string \<Rightarrow> fs \<Rightarrow> go_error option \<times> fs" where
  "os_Link old new f =
     (case node_at f (locate old) of
        None \<Rightarrow> (Some ENOENT, f)
      | Some Dir \<Rightarrow> (Some (ErrIO 1), f)
      | Some n \<Rightarrow>
          if node_at f (locate new) \<noteq> None then (Some EEXIST, f)
          else if node_at f (parent (locate new)) \<noteq> Some Dir then (Some ENOENT, f)
          else (None, set_node (locate new) n f))"

definition os_Symlink :: "string \<Rightarrow> string \<Rightarrow> fs \<Rightarrow> go_error option \<times> fs" where
  "os_Symlink old new f =
     (if node_at f (locate new) \<noteq> None then (Some EEXIST, f)
      else if node_at f (parent (locate new)) \<noteq> Some Dir then (Some ENOENT, f)
      else (None, set_node (locate new) (Symlink old) f))"

text \<open>
  The commands open a file and give it to the decoder of their configuration, a parameter; a directory can be opened but
  not read.
\<close>

definition read_config :: "(bytes \<Rightarrow> 'c outcome) \<Rightarrow> string \<Rightarrow> fs \<Rightarrow> 'c outcome" where
  "read_config toml name f =
     (case Stat f name of
        None \<Rightarrow> Inl ENOENT
      | Some (File i) \<Rightarrow> toml (fs_data f i)
      | Some _ \<Rightarrow> Inl EISDIR)"

section \<open>Laws\<close>

definition empty_fs :: fs where
  "empty_fs = \<lparr>fs_tab = [], fs_data = (\<lambda>_. []), fs_next = 0\<rparr>"

text \<open>Every entry's contents were allocated.\<close>

definition fs_ok :: "fs \<Rightarrow> bool" where
  "fs_ok f \<longleftrightarrow> (\<forall>l i. node_at f l = Some (File i) \<longrightarrow> i < fs_next f)"

definition holds :: "fs \<Rightarrow> loc \<Rightarrow> bytes \<Rightarrow> bool" where
  "holds f l bs \<longleftrightarrow> (\<exists>i. node_at f l = Some (File i) \<and> fs_data f i = bs)"

definition is_link :: "fs \<Rightarrow> loc \<Rightarrow> bool" where
  "is_link f l \<longleftrightarrow> (\<exists>t. node_at f l = Some (Symlink t))"

lemma node_at_set [simp]:
  "snd l \<noteq> [] \<Longrightarrow> node_at (set_node l n f) k = (if k = l then Some n else node_at f k)"
  by (auto simp: node_at_def set_node_def update_conv')

lemma node_at_del [simp]:
  "snd l \<noteq> [] \<Longrightarrow> node_at (del_node l f) k = (if k = l then None else node_at f k)"
  by (auto simp: node_at_def del_node_def delete_conv')

lemma fs_data_simps [simp]:
  "fs_data (set_node l n f) = fs_data f" "fs_next (set_node l n f) = fs_next f"
  "fs_data (del_node l f) = fs_data f" "fs_next (del_node l f) = fs_next f"
  by (simp_all add: set_node_def del_node_def)

lemma node_at_update [simp]:
  "node_at (f\<lparr>fs_data := d\<rparr>) = node_at f" "node_at (f\<lparr>fs_next := n\<rparr>) = node_at f"
  by (simp_all add: node_at_def fun_eq_iff)

lemma node_at_None: "node_at f l = None \<Longrightarrow> snd l \<noteq> []"
  by (auto simp: node_at_def)

lemma node_at_File: "node_at f l = Some (File i) \<Longrightarrow> snd l \<noteq> []"
  by (auto simp: node_at_def)

lemma node_at_pair_None: "node_at f (a, b) = None \<Longrightarrow> b \<noteq> []"
  using node_at_None [of f "(a, b)"] by simp

lemma chase_stop: "\<not> is_link f l \<Longrightarrow> chase 40 f l = Some l"
proof -
  assume "\<not> is_link f l"
  then have "chase (Suc 39) f l = Some l"
    by (simp only: chase.simps) (auto simp: is_link_def split: option.splits node.splits)
  then show ?thesis by simp
qed

lemma holds_no_link: "holds f l bs \<Longrightarrow> \<not> is_link f l"
  by (auto simp: holds_def is_link_def)

lemma ReadFile_holds: "holds f (locate p) bs \<Longrightarrow> ReadFile f p = Some bs"
  by (auto simp: ReadFile_def Stat_def chase_stop holds_no_link) (auto simp: holds_def)

lemma WriteFile_holds:
  assumes "\<not> is_link f (locate p)" and "WriteFile p bs f = (None, f')"
  shows "holds f' (locate p) bs"
  using assms(2) chase_stop [OF assms(1)]
  by (auto simp: WriteFile_def holds_def node_at_None split: option.splits node.splits if_splits)

lemma node_at_not_Dir: "node_at f l \<noteq> Some Dir \<Longrightarrow> snd l \<noteq> []"
  by (auto simp: node_at_def)

lemma Remove_effect:
  "snd (Remove p f) = f \<or> snd (Remove p f) = del_node (locate p) f \<and> snd (locate p) \<noteq> []"
proof (cases "node_at f (locate p) = Some Dir")
  case True
  then show ?thesis by (simp add: Remove_def Let_def)
next
  case False
  then have "snd (locate p) \<noteq> []" by (rule node_at_not_Dir)
  with False show ?thesis by (auto simp: Remove_def Let_def split: option.splits node.splits)
qed

lemma Remove_gone:
  assumes "node_at f (locate p) \<noteq> Some Dir"
  shows "node_at (snd (Remove p f)) (locate p) = None"
  using assms node_at_not_Dir [OF assms]
  by (auto simp: Remove_def Let_def split: option.splits node.splits)

lemma Remove_keeps [simp]: "k \<noteq> locate p \<Longrightarrow> node_at (snd (Remove p f)) k = node_at f k"
  using Remove_effect [of p f] by auto

lemma Remove_data [simp]: "fs_data (snd (Remove p f)) = fs_data f" "fs_next (snd (Remove p f)) = fs_next f"
  using Remove_effect [of p f] by auto

lemma os_Link_ok:
  assumes "os_Link p q f = (None, f')"
  shows "node_at f (locate q) = None \<and> fs_data f' = fs_data f \<and> fs_next f' = fs_next f \<and>
    node_at f' = (node_at f)(locate q := node_at f (locate p)) \<and> node_at f (locate p) \<noteq> None"
  using assms node_at_None [of f "locate q"]
  by (auto simp: os_Link_def fun_eq_iff split: option.splits node.splits if_splits)

lemma fs_ok_ops:
  assumes "fs_ok f"
  shows "fs_ok (snd (WriteFile p bs f))" "fs_ok (snd (Remove p f))" "fs_ok (snd (os_Link p q f))"
    "fs_ok (snd (os_Symlink p q f))"
proof -
  show "fs_ok (snd (WriteFile p bs f))"
    using assms by (auto simp: WriteFile_def fs_ok_def node_at_pair_None less_Suc_eq split: option.splits node.splits if_splits)
  show "fs_ok (snd (Remove p f))"
    using assms Remove_effect [of p f] by (auto simp: fs_ok_def split: if_splits)
  show "fs_ok (snd (os_Link p q f))"
    using assms by (auto simp: os_Link_def fs_ok_def node_at_None split: option.splits node.splits if_splits)
      (metis prod.collapse)
  show "fs_ok (snd (os_Symlink p q f))"
    using assms by (auto simp: os_Symlink_def fs_ok_def node_at_None split: if_splits)
qed

text \<open>Creating directories only adds directories.\<close>

definition adds_dirs :: "fs \<Rightarrow> fs \<Rightarrow> bool" where
  "adds_dirs f f' \<longleftrightarrow> fs_data f' = fs_data f \<and> fs_next f' = fs_next f \<and>
     (\<forall>l. node_at f' l = node_at f l \<or> node_at f l = None \<and> node_at f' l = Some Dir)"

lemma adds_dirs_refl [simp]: "adds_dirs f f"
  by (simp add: adds_dirs_def)

lemma adds_dirs_trans: "adds_dirs f g \<Longrightarrow> adds_dirs g h \<Longrightarrow> adds_dirs f h"
  unfolding adds_dirs_def by metis

lemma adds_dirs_set: "node_at f l = None \<Longrightarrow> adds_dirs f (set_node l Dir f)"
  using node_at_None [of f l] by (simp add: adds_dirs_def)

lemma mkdir_steps_adds: "adds_dirs f (snd (mkdir_steps r pre cs f))"
proof (induction r pre cs f rule: mkdir_steps.induct)
  case (2 r pre c cs f)
  show ?case
  proof (cases "node_at f (r, pre @ [c])")
    case None
    with adds_dirs_trans [OF adds_dirs_set [OF None] "2.IH"(1) [OF None]] show ?thesis by simp
  next
    case (Some n)
    with "2.IH"(2) [OF Some] show ?thesis by (cases n) auto
  qed
qed simp

lemma MkdirAll_adds: "adds_dirs f (snd (MkdirAll p f))"
  by (simp add: MkdirAll_def mkdir_steps_adds)

lemma adds_dirs_holds: "adds_dirs f f' \<Longrightarrow> holds f l bs \<Longrightarrow> holds f' l bs"
  unfolding adds_dirs_def holds_def by (metis option.distinct(1))

lemma adds_dirs_link: "adds_dirs f f' \<Longrightarrow> is_link f' l \<Longrightarrow> is_link f l"
  unfolding adds_dirs_def is_link_def by (metis node.distinct(3) option.inject)

lemma adds_dirs_ok: "adds_dirs f f' \<Longrightarrow> fs_ok f \<Longrightarrow> fs_ok f'"
  unfolding adds_dirs_def fs_ok_def by (metis node.distinct(1) option.inject)

section \<open>Publishing a file\<close>

text \<open>
  The laws a storage needs to keep a file readable under several names: removing and
  adding names leaves the other names and their contents alone, and a new name shares the
  contents of the old one. A client replaces the name \<open>q\<close> by another name of the file \<open>p\<close>; if that
  succeeds, every file that held the contents before still does, and so does \<open>q\<close>.
\<close>

locale file_tree =
  fixes has :: "'f \<Rightarrow> 'l \<Rightarrow> bytes \<Rightarrow> bool"
    and loc_of :: "'p \<Rightarrow> 'l"
    and remove :: "'p \<Rightarrow> 'f \<Rightarrow> go_error option \<times> 'f"
    and link :: "'p \<Rightarrow> 'p \<Rightarrow> 'f \<Rightarrow> go_error option \<times> 'f"
  assumes remove_other: "has f l bs \<Longrightarrow> l \<noteq> loc_of p \<Longrightarrow> has (snd (remove p f)) l bs"
    and link_distinct: "link p q f = (None, f') \<Longrightarrow> loc_of p \<noteq> loc_of q"
    and link_new: "link p q f = (None, f') \<Longrightarrow> has f (loc_of p) bs \<Longrightarrow> has f' (loc_of q) bs"
    and link_other: "link p q f = (None, f') \<Longrightarrow> has f l bs \<Longrightarrow> has f' l bs"
begin

lemma replace_name:
  assumes "has f (loc_of p) bs" and "has f l bs"
    and "\<And>k. has (snd (remove q f)) k bs \<Longrightarrow> k = loc_of p \<or> k = l \<Longrightarrow> has g k bs"
    and "link p q g = (None, f')"
  shows "has f' l bs \<and> has f' (loc_of q) bs"
proof -
  have "has g (loc_of p) bs"
    using link_distinct [OF assms(4)] remove_other [OF assms(1)] assms(3) by blast
  then have q: "has f' (loc_of q) bs" using link_new [OF assms(4)] by blast
  show ?thesis
  proof (cases "l = loc_of q")
    case False
    then show ?thesis using q link_other [OF assms(4)] remove_other [OF assms(2)] assms(3) by blast
  qed (use q in simp)
qed

end

interpretation os: file_tree holds locate Remove os_Link
proof
  show "os_Link p q f = (None, f') \<Longrightarrow> locate p \<noteq> locate q" for p q f f'
    using os_Link_ok by fastforce
  show "os_Link p q f = (None, f') \<Longrightarrow> holds f (locate p) bs \<Longrightarrow> holds f' (locate q) bs" for p q f f' bs
    using os_Link_ok [of p q f f'] by (auto simp: holds_def)
  show "os_Link p q f = (None, f') \<Longrightarrow> holds f l bs \<Longrightarrow> holds f' l bs" for p q f f' l bs
    using os_Link_ok [of p q f f'] by (auto simp: holds_def)
qed (auto simp: holds_def)

end
