(* ===== verification/Filestore.thy ===== *)
theory Filestore
  imports Storage Go_FS
begin

text \<open>
  The storage that writes one file per packet (\<^verbatim>\<open>src/storage/files.go\<close>), its shares, which link the
  files into other directories, and the creation of directories (\<^verbatim>\<open>dirmaker.Prepare\<close>). The XML encoder is
  a parameter. The file system is the state.
\<close>

section \<open>Options\<close>

datatype Options = Options
  (o_Scheme: string) (o_Location: string) (o_Format: string) (o_KeepBad: bool) (o_Control: Control)
  (o_Interval: int) (o_Timeout: int) (o_MaxSize: int) (o_MaxCount: int)
  (o_Epoch: string) (o_Levels: "string list") (o_Shares: "Options list") (o_Link: string)

definition BAD :: string where "BAD = ''.bad''"

definition XML :: string where "XML = ''.xml''"

section \<open>Preparing directories\<close>

definition IsExist :: "go_error \<Rightarrow> bool" where
  "IsExist e \<longleftrightarrow> e = EEXIST"

definition Prepare :: "panda \<Rightarrow> dirmaker \<Rightarrow> uint8 \<Rightarrow> HRPacket \<Rightarrow> fs \<Rightarrow> string outcome \<times> fs" where
  "Prepare pa d i p f =
     (let base = prepare_path pa d i p in
      case MkdirAll base f of
        (None, f) \<Rightarrow> (Inr base, f)
      | (Some e, f) \<Rightarrow> if \<not> IsExist e then (Inl e, f) else (Inr base, f))"

section \<open>Shares\<close>

record linkstore =
  ls_link :: string
  ls_rembad :: bool
  ls_data :: dirmaker

definition newLinkStorage :: "Options \<Rightarrow> fs \<Rightarrow> linkstore outcome" where
  "newLinkStorage opt f =
     (case Stat f (o_Location opt) of
        None \<Rightarrow> Inl ENOENT
      | Some n \<Rightarrow>
          if n \<noteq> Dir then Inl (Errorf ''%s: not a directory'')
          else
            let levels = checkLevels (o_Levels opt) [LevelClassic, LevelACQTime];
                dm = NewDirectory (o_Location opt) (o_Epoch opt) levels (o_Interval opt)
            in if o_Link opt \<notin> {'''', ''hard'', ''soft''} then Inl (Errorf ''invalid link type %s'')
               else Inr \<lparr>ls_link = o_Link opt, ls_rembad = \<not> o_KeepBad opt, ls_data = dm\<rparr>)"

definition Link :: "panda \<Rightarrow> linkstore \<Rightarrow> string \<Rightarrow> uint8 \<Rightarrow> HRPacket \<Rightarrow> fs \<Rightarrow> go_error option \<times> fs" where
  "Link pa s link i p f =
     (case Prepare pa (ls_data s) i p f of
        (Inl e, f) \<Rightarrow> (Some e, f)
      | (Inr dir, f) \<Rightarrow>
          let filename = Base link;
              badname = filename @ BAD;
              f = snd (Remove (Join [dir, filename]) f);
              f = (if \<not> hr_IsRealtime p \<and> ls_rembad s then snd (Remove (Join [dir, badname]) f) else f)
          in if ls_link s = ''hard'' \<or> ls_link s = '''' then os_Link link (Join [dir, filename]) f
             else if ls_link s = ''soft'' then os_Symlink link (Join [dir, filename]) f
             else (None, f))"

section \<open>The storage\<close>

record filestore =
  fst_Control :: Control
  fst_data :: dirmaker
  fst_rembad :: bool
  fst_encode :: "HRPacket \<Rightarrow> bytes outcome"
  fst_links :: "linkstore list"

fun linkToShare :: "panda \<Rightarrow> linkstore list \<Rightarrow> string \<Rightarrow> uint8 \<Rightarrow> HRPacket \<Rightarrow> fs \<Rightarrow> go_error option \<times> fs" where
  "linkToShare pa [] link i p f = (None, f)"
| "linkToShare pa (s # ss) link i p f =
     (case Link pa s link i p f of
        (Some e, f) \<Rightarrow> (Some e, f)
      | (None, f) \<Rightarrow> linkToShare pa ss link i p f)"

fun new_links :: "Options list \<Rightarrow> fs \<Rightarrow> linkstore list outcome" where
  "new_links [] f = Inr []"
| "new_links (opt # opts) f =
     (case newLinkStorage opt f of
        Inl e \<Rightarrow> Inl e
      | Inr k \<Rightarrow> (case new_links opts f of Inl e \<Rightarrow> Inl e | Inr ks \<Rightarrow> Inr (k # ks)))"

definition NewLocalStorage :: "Options \<Rightarrow> fs \<Rightarrow> filestore outcome" where
  "NewLocalStorage opt f =
     (case Stat f (o_Location opt) of
        None \<Rightarrow> Inl ENOENT
      | Some n \<Rightarrow>
          if n \<noteq> Dir then Inl (Errorf ''%s: not a directory'')
          else
            (case new_links (o_Shares opt) f of
               Inl e \<Rightarrow> Inl e
             | Inr ks \<Rightarrow>
                 Inr \<lparr>fst_Control = o_Control opt,
                      fst_data = NewDirectory (o_Location opt) (o_Epoch opt) (o_Levels opt) (o_Interval opt),
                      fst_rembad = \<not> o_KeepBad opt,
                      fst_encode = (if o_Format opt = ''raw'' then encodeRawPacket else hr_Export),
                      fst_links = ks\<rparr>))"

definition writeMetadata ::
  "panda \<Rightarrow> (HRPacket \<Rightarrow> bytes outcome) \<Rightarrow> filestore \<Rightarrow> string \<Rightarrow> uint8 \<Rightarrow> HRPacket \<Rightarrow> fs \<Rightarrow> go_error option \<times> fs" where
  "writeMetadata pa encodeMetadata st dir i p f =
     (case encodeMetadata p of
        Inl e \<Rightarrow> (Some e, f)
      | Inr w \<Rightarrow>
          if length w = 0 then (None, f)
          else
            let filename = hr_Filename p @ XML;
                badname = filename @ BAD;
                f = (if \<not> hr_IsRealtime p \<and> fst_rembad st then snd (Remove (Join [dir, badname]) f) else f);
                file = Join [dir, filename]
            in (case WriteFile file w f of
                  (Some e, f) \<Rightarrow> (Some e, f)
                | (None, f) \<Rightarrow> linkToShare pa (fst_links st) file i p f))"

text \<open>A corrupted packet is not stored when the correct one is there already.\<close>

definition superseded :: "filestore \<Rightarrow> string \<Rightarrow> HRPacket \<Rightarrow> fs \<Rightarrow> bool" where
  "superseded st dir p f \<longleftrightarrow>
     fst_rembad st \<and> Ext (hr_Filename p) = BAD \<and>
     (case Stat f (Join [dir, TrimSuffix (hr_Filename p) BAD]) of Some (File _) \<Rightarrow> True | _ \<Rightarrow> False)"

definition filestore_Store ::
  "panda \<Rightarrow> (HRPacket \<Rightarrow> bytes outcome) \<Rightarrow> filestore \<Rightarrow> uint8 \<Rightarrow> HRPacket \<Rightarrow> fs \<Rightarrow> go_error option \<times> fs" where
  "filestore_Store pa encodeMetadata st i p f =
     (if \<not> Can pa (Some (fst_Control st)) p then (None, f)
      else
        (case Prepare pa (fst_data st) i p f of
           (Inl e, f) \<Rightarrow> (Some e, f)
         | (Inr dir, f) \<Rightarrow>
             if superseded st dir p f then (None, f)
             else
               (case fst_encode st p of
                  Inl e \<Rightarrow> (Some (Errorf ''%s not written: %s''), f)
                | Inr w \<Rightarrow>
                    let filename = hr_Filename p;
                        badname = filename @ BAD;
                        f = (if fst_rembad st then snd (Remove (Join [dir, badname]) f) else f);
                        file = Join [dir, filename]
                    in (case WriteFile file w f of
                          (Some e, f) \<Rightarrow> (Some e, f)
                        | (None, f) \<Rightarrow>
                            (case linkToShare pa (fst_links st) file i p f of
                               (Some e, f) \<Rightarrow> (Some e, f)
                             | (None, f) \<Rightarrow>
                                 if is_Image p then writeMetadata pa encodeMetadata st dir i p f else (None, f))))))"

section \<open>Files and their shares\<close>

lemma plain_bad: "plain_name n \<Longrightarrow> plain_name (n @ BAD)"
  by (auto simp: plain_name_def BAD_def)

lemma locate_Join_last: "plain_name n \<Longrightarrow> snd (locate (Join [d, n])) \<noteq> [] \<and> last (snd (locate (Join [d, n]))) = n"
  using Join_last [of n d] by (auto simp: locate_def)

lemma locate_bad_differs:
  "plain_name n \<Longrightarrow> locate (Join [d, n]) \<noteq> locate (Join [e, n @ BAD])"
  using locate_Join_last [of n d] locate_Join_last [OF plain_bad, of n e] by (auto simp: BAD_def)

lemma Prepare_adds: "adds_dirs f (snd (Prepare pa d i p f))"
  using MkdirAll_adds [of f "prepare_path pa d i p"]
  by (auto simp: Prepare_def Let_def split: prod.splits option.splits)

lemma Prepare_dir: "Prepare pa d i p f = (Inr dir, f') \<Longrightarrow> dir = prepare_path pa d i p"
  by (auto simp: Prepare_def Let_def split: prod.splits option.splits if_splits)

definition hard_links :: "linkstore list \<Rightarrow> bool" where
  "hard_links ks \<longleftrightarrow> (\<forall>k\<in>set ks. ls_link k = ''hard'' \<or> ls_link k = '''')"

definition share_file :: "panda \<Rightarrow> uint8 \<Rightarrow> HRPacket \<Rightarrow> string \<Rightarrow> linkstore \<Rightarrow> string" where
  "share_file pa i p n k = Join [prepare_path pa (ls_data k) i p, n]"

lemma Link_hard:
  assumes "plain_name n" and "ls_link k = ''hard'' \<or> ls_link k = ''''"
    and "holds f (locate (Join [d, n])) bs" and "holds f (locate (Join [e, n])) bs"
    and "Link pa k (Join [d, n]) i p f = (None, f')"
  shows "holds f' (locate (Join [e, n])) bs \<and> holds f' (locate (share_file pa i p n k)) bs"
proof -
  let ?q = "share_file pa i p n k" and ?bad = "Join [prepare_path pa (ls_data k) i p, n @ BAD]"
  obtain dir f1 where prep: "Prepare pa (ls_data k) i p f = (Inr dir, f1)"
    using assms(5) by (auto simp: Link_def split: prod.splits sum.splits)
  define g where "g = (if \<not> hr_IsRealtime p \<and> ls_rembad k then snd (Remove ?bad (snd (Remove ?q f1))) else snd (Remove ?q f1))"
  have link: "os_Link (Join [d, n]) ?q g = (None, f')"
    using assms(2,5) prep Prepare_dir [OF prep]
    by (auto simp: Link_def g_def share_file_def Base_Join [OF assms(1)] Let_def split: if_splits)
  have ad: "adds_dirs f f1" using Prepare_adds [of f pa "ls_data k" i p] by (simp add: prep)
  have keep: "holds g x bs" if "holds (snd (Remove ?q f1)) x bs" "x = locate (Join [d, n]) \<or> x = locate (Join [e, n])" for x
    using that locate_bad_differs [OF assms(1)] os.remove_other [of "snd (Remove ?q f1)" x bs ?bad]
    by (auto simp: g_def)
  show ?thesis
    using os.replace_name [OF adds_dirs_holds [OF ad assms(3)] adds_dirs_holds [OF ad assms(4)] keep link] by blast
qed

lemma linkToShare_hard:
  assumes "plain_name n" and "hard_links ks"
  shows "holds f (locate (Join [d, n])) bs \<Longrightarrow> holds f (locate (Join [e, n])) bs \<Longrightarrow>
    linkToShare pa ks (Join [d, n]) i p f = (None, f') \<Longrightarrow>
    holds f' (locate (Join [e, n])) bs \<and> (\<forall>k\<in>set ks. holds f' (locate (share_file pa i p n k)) bs)"
  using assms(2)
proof (induction ks arbitrary: f e)
  case (Cons k ks)
  then obtain f1 where f1: "Link pa k (Join [d, n]) i p f = (None, f1)"
    and rest: "linkToShare pa ks (Join [d, n]) i p f1 = (None, f')"
    by (auto split: prod.splits option.splits)
  have hard: "ls_link k = ''hard'' \<or> ls_link k = ''''" and hards: "hard_links ks"
    using Cons.prems(4) by (simp_all add: hard_links_def)
  note step = Link_hard [OF assms(1) hard Cons.prems(1) _ f1]
  have d: "holds f1 (locate (Join [d, n])) bs" using step [OF Cons.prems(1)] by blast
  have e: "holds f1 (locate (Join [e, n])) bs" using step [OF Cons.prems(2)] by blast
  have k: "holds f1 (locate (Join [prepare_path pa (ls_data k) i p, n])) bs"
    using step [OF Cons.prems(1)] by (simp add: share_file_def)
  show ?case
    using Cons.IH [OF d e rest hards] Cons.IH [OF d k rest hards] by (simp add: share_file_def)
qed simp

lemma stored_table_file:
  assumes "filestore_Store pa xml st i p f = (None, f')"
    and "Can pa (Some (fst_Control st)) p" and "\<not> is_Image p" and "plain_name (hr_Filename p)"
    and "hard_links (fst_links st)"
    and "Ext (hr_Filename p) \<noteq> BAD \<or> \<not> fst_rembad st"
    and "\<not> is_link f (locate (Join [prepare_path pa (fst_data st) i p, hr_Filename p]))"
  shows "\<exists>w. fst_encode st p = Inr w \<and>
    ReadFile f' (Join [prepare_path pa (fst_data st) i p, hr_Filename p]) = Some w \<and>
    (\<forall>k\<in>set (fst_links st). ReadFile f' (share_file pa i p (hr_Filename p) k) = Some w)"
proof -
  let ?n = "hr_Filename p" and ?dir = "prepare_path pa (fst_data st) i p"
  obtain f1 where prep: "Prepare pa (fst_data st) i p f = (Inr ?dir, f1)"
    using assms(1,2) Prepare_dir by (auto simp: filestore_Store_def split: prod.splits sum.splits)
  have new: "\<not> superseded st ?dir p g" for g using assms(6) by (auto simp: superseded_def)
  obtain w where w: "fst_encode st p = Inr w"
    using assms(1,2) new prep by (auto simp: filestore_Store_def split: sum.splits)
  define g where "g = (if fst_rembad st then snd (Remove (Join [?dir, ?n @ BAD]) f1) else f1)"
  from assms(1,2,3) new prep w obtain f2 where wr: "WriteFile (Join [?dir, ?n]) w g = (None, f2)"
    and ln: "linkToShare pa (fst_links st) (Join [?dir, ?n]) i p f2 = (None, f')"
    by (auto simp: filestore_Store_def g_def Let_def split: prod.splits option.splits)
  have ad: "adds_dirs f f1" using Prepare_adds [of f pa "fst_data st" i p] by (simp add: prep)
  have "\<not> is_link f1 (locate (Join [?dir, ?n]))" using adds_dirs_link [OF ad] assms(7) by blast
  then have "\<not> is_link g (locate (Join [?dir, ?n]))"
    using locate_bad_differs [OF assms(4), of ?dir ?dir] by (simp add: g_def is_link_def)
  then have "holds f2 (locate (Join [?dir, ?n])) w" by (rule WriteFile_holds) (rule wr)
  from linkToShare_hard [OF assms(4,5) this this ln] w show ?thesis
    using ReadFile_holds by blast
qed


definition sample_control :: Control where
  "sample_control = \<lparr>ctl_Type = '''', ctl_Accept = [], ctl_Reject = []\<rparr>"

definition sample_fs :: fs where
  "sample_fs = snd (MkdirAll ''/share'' (snd (MkdirAll ''/data'' empty_fs)))"

definition sample_options :: Options where
  "sample_options = Options ''file'' ''/data'' ''raw'' False sample_control 0 0 0 0 [] [''classic'']
     [Options [] ''/share'' [] False sample_control 0 0 0 0 [] [''type''] [] ''hard''] []"

definition sample_store :: filestore where
  "sample_store = \<lparr>fst_Control = sample_control, fst_data = NewDirectory ''/data'' [] [''classic''] 0,
     fst_rembad = True, fst_encode = encodeRawPacket,
     fst_links = [\<lparr>ls_link = ''hard'', ls_rembad = True, ls_data = NewDirectory ''/share'' [] [''type''] 0\<rparr>]\<rparr>"


section \<open>Corrupted packets\<close>

lemma store_bad:
  assumes "Can pa (Some (fst_Control st)) p" and "fst_rembad st" and "plain_name n"
    and "fst (Prepare pa (fst_data st) i p f) = Inr d"
    and "hr_Filename p = n @ BAD \<and> Ext (n @ BAD) = BAD \<and> holds f (locate (Join [d, n])) bs"
  shows "fst (filestore_Store pa xml st i p f) = None \<and> adds_dirs f (snd (filestore_Store pa xml st i p f))"
proof -
  obtain f1 where prep: "Prepare pa (fst_data st) i p f = (Inr d, f1)" using assms(4) by (metis prod.collapse)
  have ad: "adds_dirs f f1" using Prepare_adds [of f pa "fst_data st" i p] by (simp add: prep)
  have h: "holds f1 (locate (Join [d, n])) bs" using adds_dirs_holds [OF ad] assms(5) by blast
  then obtain k where "node_at f1 (locate (Join [d, n])) = Some (File k)" by (auto simp: holds_def)
  then have "superseded st d p f1"
    using assms(2,5) chase_stop [OF holds_no_link [OF h]] by (simp add: superseded_def Stat_def)
  with assms(1) prep ad show ?thesis by (simp add: filestore_Store_def)
qed

lemma store_good:
  assumes "Can pa (Some (fst_Control st)) p" and "fst_rembad st" and "plain_name n"
    and "fst (Prepare pa (fst_data st) i p f) = Inr d"
    and *: "hr_Filename p = n \<and> Ext n \<noteq> BAD \<and> \<not> is_Image p \<and> fst_links st = [] \<and>
      \<not> is_link f (locate (Join [d, n])) \<and>
      node_at (snd (Prepare pa (fst_data st) i p f)) (locate (Join [d, n @ BAD])) \<noteq> Some Dir \<and>
      fst (filestore_Store pa xml st i p f) = None"
  shows "node_at (snd (filestore_Store pa xml st i p f)) (locate (Join [d, n @ BAD])) = None"
proof -
  obtain f1 where prep: "Prepare pa (fst_data st) i p f = (Inr d, f1)" using assms(4) by (metis prod.collapse)
  have ad: "adds_dirs f f1" using Prepare_adds [of f pa "fst_data st" i p] by (simp add: prep)
  have new: "\<not> superseded st d p f1" using * by (simp add: superseded_def)
  define g where "g = snd (Remove (Join [d, n @ BAD]) f1)"
  obtain w where w: "fst_encode st p = Inr w"
    using * assms(1,2) prep new by (auto simp: filestore_Store_def split: sum.splits)
  have st: "filestore_Store pa xml st i p f = WriteFile (Join [d, n]) w g"
    using * assms(1,2) prep new w
    by (auto simp: filestore_Store_def g_def Let_def split: prod.splits option.splits)
  have gone: "node_at g (locate (Join [d, n @ BAD])) = None"
    unfolding g_def using * prep by (intro Remove_gone) simp
  have "\<not> is_link f1 (locate (Join [d, n]))" using adds_dirs_link [OF ad] * by blast
  then have "\<not> is_link g (locate (Join [d, n]))"
    using locate_bad_differs [OF assms(3), of d d] by (simp add: g_def is_link_def)
  from chase_stop [OF this] gone locate_bad_differs [OF assms(3), of d d] show ?thesis
    unfolding st by (auto simp: WriteFile_def node_at_None split: option.splits node.splits)
qed



section \<open>A share in the directory of the storage\<close>

lemma chase_self:
  "node_at f l = Some (Symlink t) \<Longrightarrow> link_target l t = l \<Longrightarrow> chase m f l = None"
  by (induction m) simp_all

text \<open>
  A share whose directory is the one of the storage itself destroys the packet just
  written: the share first removes the file it is about to link to. With hard links the storage reports that
  the file does not exist; with symbolic links it reports success, and the name is left as
  a symbolic link to itself.
\<close>

theorem share_in_place_loses_file:
  assumes "plain_name n" and "hr_IsRealtime p" and "is_rooted (Join [d, n])"
    and "fst (Prepare pa (ls_data k) i p f) = Inr d"
    and "holds f (locate (Join [d, n])) bs" and "node_at f (parent (locate (Join [d, n]))) = Some Dir"
    and "ls_link k \<in> {'''', ''hard'', ''soft''}"
  shows "fst (Link pa k (Join [d, n]) i p f) = (if ls_link k = ''soft'' then None else Some ENOENT) \<and>
    ReadFile (snd (Link pa k (Join [d, n]) i p f)) (Join [d, n]) = None"
proof -
  let ?l = "locate (Join [d, n])"
  obtain f1 where prep: "Prepare pa (ls_data k) i p f = (Inr d, f1)" using assms(4) by (metis prod.collapse)
  have ad: "adds_dirs f f1" using Prepare_adds [of f pa "ls_data k" i p] by (simp add: prep)
  define g where "g = snd (Remove (Join [d, n]) f1)"
  have "holds f1 ?l bs" by (rule adds_dirs_holds [OF ad assms(5)])
  then have gone: "node_at g ?l = None" unfolding g_def by (intro Remove_gone) (auto simp: holds_def)
  have ne: "snd ?l \<noteq> []" using locate_Join_last [OF assms(1)] by blast
  have "node_at f1 (parent ?l) = Some Dir" using ad assms(6) unfolding adds_dirs_def by (metis option.distinct(1))
  moreover have "parent ?l \<noteq> ?l" using ne by (cases ?l) (auto simp: parent_def, metis append_butlast_last_id append_self_conv not_Cons_self2)
  ultimately have dir: "node_at g (parent ?l) = Some Dir" by (simp add: g_def)
  have none: "ReadFile g (Join [d, n]) = None"
    using chase_stop [of g ?l] gone by (simp add: ReadFile_def Stat_def is_link_def)
  have hard: "os_Link (Join [d, n]) (Join [d, n]) g = (Some ENOENT, g)" by (simp add: os_Link_def gone)
  have soft: "os_Symlink (Join [d, n]) (Join [d, n]) g = (None, set_node ?l (Symlink (Join [d, n])) g)"
    by (simp add: os_Symlink_def gone dir)
  have "link_target ?l (Join [d, n]) = ?l" by (simp add: link_target_def assms(3))
  then have "chase 40 (set_node ?l (Symlink (Join [d, n])) g) ?l = None"
    by (intro chase_self) (simp_all add: ne)
  then have "ReadFile (set_node ?l (Symlink (Join [d, n])) g) (Join [d, n]) = None"
    by (simp add: ReadFile_def Stat_def)
  with hard soft none show ?thesis
    using assms(2,7) prep by (auto simp: Link_def g_def [symmetric] Base_Join [OF assms(1)] Let_def)
qed

theorem share_in_place_loses_file_witness:
  "fst (Link sample_panda \<lparr>ls_link = ''soft'', ls_rembad = True, ls_data = NewDirectory ''/data'' [] [''classic''] 0\<rparr>
     (Join [''/data/OPS/sciences/realtime/36'', ''36_7.dat'']) 255 sample_table
     (snd (filestore_Store sample_panda hr_Bytes sample_store 255 sample_table sample_fs))) = None"
proof -
  let ?f = "snd (filestore_Store sample_panda hr_Bytes sample_store 255 sample_table sample_fs)"
  let ?k = "\<lparr>ls_link = ''soft'', ls_rembad = True, ls_data = NewDirectory ''/data'' [] [''classic''] 0\<rparr>"
  let ?d = "''/data/OPS/sciences/realtime/36''"
  have "plain_name ''36_7.dat''" "hr_IsRealtime sample_table" "is_rooted (Join [?d, ''36_7.dat''])"
    "fst (Prepare sample_panda (ls_data ?k) 255 sample_table ?f) = Inr ?d"
    "node_at ?f (parent (locate (Join [?d, ''36_7.dat'']))) = Some Dir" by code_simp+
  moreover have "node_at ?f (locate (Join [?d, ''36_7.dat''])) = Some (File 0)" by code_simp
  then have "holds ?f (locate (Join [?d, ''36_7.dat''])) (fs_data ?f 0)" by (simp add: holds_def)
  ultimately show ?thesis
    using share_in_place_loses_file [of "''36_7.dat''" sample_table ?d sample_panda ?k 255 ?f "fs_data ?f 0"] by simp
qed

section \<open>Well-formedness of the file system\<close>

lemma Prepare_fs_ok: "fs_ok f \<Longrightarrow> fs_ok (snd (Prepare pa d i p f))"
  using adds_dirs_ok [OF Prepare_adds] by blast

lemma Link_fs_ok: "fs_ok f \<Longrightarrow> fs_ok (snd (Link pa s link i p f))"
  using Prepare_fs_ok [of f pa "ls_data s" i p]
  by (auto simp: Link_def Let_def fs_ok_ops split: prod.splits sum.splits)

lemma linkToShare_fs_ok: "fs_ok f \<Longrightarrow> fs_ok (snd (linkToShare pa ss link i p f))"
proof (induction ss arbitrary: f)
  case (Cons s ss)
  with Link_fs_ok [OF Cons.prems, of pa s link i p] show ?case by (auto split: prod.splits option.splits)
qed simp

lemma write_and_share_fs_ok:
  assumes "fs_ok f"
  shows "fs_ok (snd (case WriteFile name w f of (Some e, f) \<Rightarrow> (Some e, f) | (None, f) \<Rightarrow> linkToShare pa ss name i p f))"
proof -
  obtain e g where g: "WriteFile name w f = (e, g)" by fastforce
  with fs_ok_ops(1) [OF assms, of name w] have "fs_ok g" by simp
  with linkToShare_fs_ok show ?thesis by (cases e) (simp_all add: g)
qed

lemma writeMetadata_fs_ok:
  "fs_ok f \<Longrightarrow> fs_ok (snd (writeMetadata pa encodeMetadata st dir i p f))"
  by (auto simp: writeMetadata_def Let_def intro!: write_and_share_fs_ok fs_ok_ops(2) split: sum.splits)

lemma store_file_fs_ok:
  assumes "fs_ok f"
  shows "fs_ok (snd (case WriteFile name w f of
      (Some e, f) \<Rightarrow> (Some e, f)
    | (None, f) \<Rightarrow>
        (case linkToShare pa (fst_links st) name i p f of
           (Some e, f) \<Rightarrow> (Some e, f)
         | (None, f) \<Rightarrow> if is_Image p then writeMetadata pa encodeMetadata st dir i p f else (None, f))))"
proof -
  obtain e g where g: "WriteFile name w f = (e, g)" by fastforce
  with fs_ok_ops(1) [OF assms, of name w] have ok: "fs_ok g" by simp
  obtain e' h where h: "linkToShare pa (fst_links st) name i p g = (e', h)" by fastforce
  with linkToShare_fs_ok [OF ok, of pa "fst_links st" name i p] have "fs_ok h" by simp
  with ok writeMetadata_fs_ok show ?thesis by (cases e; cases e') (simp_all add: g h)
qed

lemma filestore_Store_fs_ok:
  assumes "fs_ok f"
  shows "fs_ok (snd (filestore_Store pa encodeMetadata st i p f))"
proof (cases "\<not> Can pa (Some (fst_Control st)) p")
  case False
  obtain d g where prep: "Prepare pa (fst_data st) i p f = (d, g)" by fastforce
  with Prepare_fs_ok [OF assms, of pa "fst_data st" i p] have g: "fs_ok g" by simp
  show ?thesis
  proof (cases d)
    case (Inr dir)
    let ?g = "if fst_rembad st then snd (Remove (Join [dir, hr_Filename p @ BAD]) g) else g"
    have "fs_ok ?g" using g fs_ok_ops(2) by simp
    from store_file_fs_ok [OF this] show ?thesis
      using False g by (cases "fst_encode st p") (simp_all add: filestore_Store_def Let_def prep Inr)
  qed (use False g in \<open>simp add: filestore_Store_def prep\<close>)
qed (simp add: filestore_Store_def assms)

interpretation files: invariant_storage "filestore_Store pa encodeMetadata st" fs_ok for pa encodeMetadata st
  by unfold_locales (rule filestore_Store_fs_ok)

end
