(* ===== verification/Storage_Frame.thy ===== *)
theory Storage_Frame
  imports Filestore
begin

text \<open>
  What storing a packet leaves alone: the names a store may touch, and that every other file keeps its
  contents. Contents are shared by hard links, so a file is safe when none of the names touched refers to its
  contents and none is a symbolic link.
\<close>

section \<open>The names a store touches\<close>

definition name_pair :: "string \<Rightarrow> string \<Rightarrow> loc set" where
  "name_pair dir n = {locate (Join [dir, n]), locate (Join [dir, n @ BAD])}"

definition touched_by :: "panda \<Rightarrow> filestore \<Rightarrow> uint8 \<Rightarrow> HRPacket \<Rightarrow> string \<Rightarrow> loc set" where
  "touched_by pa st i p n =
     (let dir = prepare_path pa (fst_data st) i p in
      name_pair dir n \<union> (\<Union>s\<in>set (fst_links st). name_pair (prepare_path pa (ls_data s) i p) (Base (Join [dir, n]))))"

definition touched :: "panda \<Rightarrow> filestore \<Rightarrow> uint8 \<Rightarrow> HRPacket \<Rightarrow> loc set" where
  "touched pa st i p = touched_by pa st i p (hr_Filename p) \<union> touched_by pa st i p (hr_Filename p @ XML)"

section \<open>Operations on some names only\<close>

text \<open>
  A property of the file system that does not depend on the names in \<open>T\<close> and on new directories. The
  operations of a storage keep it as long as they are applied to these names only, hence storing a packet keeps
  it when these are all the names it touches.
\<close>

locale file_frame =
  fixes T :: "loc set" and P :: "fs \<Rightarrow> bool"
  assumes adds: "adds_dirs f f' \<Longrightarrow> P f \<Longrightarrow> P f'"
    and removes: "P f \<Longrightarrow> locate q \<in> T \<Longrightarrow> P (snd (Remove q f))"
    and writes: "P f \<Longrightarrow> locate q \<in> T \<Longrightarrow> P (snd (WriteFile q bs f))"
    and links: "P f \<Longrightarrow> locate q \<in> T \<Longrightarrow> locate r \<in> T \<Longrightarrow> P (snd (os_Link q r f))"
begin

lemma prepares: "P f \<Longrightarrow> P (snd (Prepare pa d i p f))"
  by (rule adds [OF Prepare_adds])

lemma Link_frame:
  assumes "P f" and "ls_link s \<noteq> ''soft''" and "locate link \<in> T"
    and "name_pair (prepare_path pa (ls_data s) i p) (Base link) \<subseteq> T"
  shows "P (snd (Link pa s link i p f))"
proof -
  obtain d g where prep: "Prepare pa (ls_data s) i p f = (d, g)" by fastforce
  with prepares [OF assms(1), of pa "ls_data s" i p] have g: "P g" by simp
  show ?thesis
  proof (cases d)
    case (Inr dir)
    with prep have "dir = prepare_path pa (ls_data s) i p" by (simp add: Prepare_dir)
    with assms(4) have T: "locate (Join [dir, Base link]) \<in> T" "locate (Join [dir, Base link @ BAD]) \<in> T"
      by (simp_all add: name_pair_def)
    then show ?thesis
      using assms(2,3) g by (simp add: Link_def prep Inr Let_def removes writes links)
  qed (use g in \<open>simp add: Link_def prep\<close>)
qed

lemma linkToShare_frame:
  assumes "P f" and "\<forall>s\<in>set ss. ls_link s \<noteq> ''soft''" and "locate link \<in> T"
    and "\<forall>s\<in>set ss. name_pair (prepare_path pa (ls_data s) i p) (Base link) \<subseteq> T"
  shows "P (snd (linkToShare pa ss link i p f))"
  using assms
proof (induction ss arbitrary: f)
  case (Cons s ss)
  obtain e g where g: "Link pa s link i p f = (e, g)" by fastforce
  with Link_frame [OF Cons.prems(1), of s link pa i p] Cons.prems have "P g" by simp
  with Cons show ?case by (cases e) (simp_all add: g)
qed simp

lemma write_and_share_frame:
  assumes "P f" and "\<forall>s\<in>set (fst_links st). ls_link s \<noteq> ''soft''"
    and "dir = prepare_path pa (fst_data st) i p" and "touched_by pa st i p n \<subseteq> T"
  shows "P (snd (case WriteFile (Join [dir, n]) bs f of
      (Some e, f) \<Rightarrow> (Some e, f) | (None, f) \<Rightarrow> linkToShare pa (fst_links st) (Join [dir, n]) i p f))"
proof -
  have T: "locate (Join [dir, n]) \<in> T"
    "\<forall>s\<in>set (fst_links st). name_pair (prepare_path pa (ls_data s) i p) (Base (Join [dir, n])) \<subseteq> T"
    using assms(3,4) by (auto simp: touched_by_def name_pair_def Let_def)
  obtain e g where g: "WriteFile (Join [dir, n]) bs f = (e, g)" by fastforce
  with writes [OF assms(1) T(1), of bs] have "P g" by simp
  with linkToShare_frame [OF _ assms(2) T] show ?thesis by (cases e) (simp_all add: g)
qed

lemma writeMetadata_frame:
  assumes "P f" and "\<forall>s\<in>set (fst_links st). ls_link s \<noteq> ''soft''"
    and "dir = prepare_path pa (fst_data st) i p" and "touched_by pa st i p (hr_Filename p @ XML) \<subseteq> T"
  shows "P (snd (writeMetadata pa encodeMetadata st dir i p f))"
proof -
  have "locate (Join [dir, (hr_Filename p @ XML) @ BAD]) \<in> T"
    using assms(3,4) by (auto simp: touched_by_def name_pair_def Let_def)
  then have "P (if \<not> hr_IsRealtime p \<and> fst_rembad st then snd (Remove (Join [dir, (hr_Filename p @ XML) @ BAD]) f) else f)"
    using assms(1) by (simp add: removes writes links)
  from write_and_share_frame [OF this assms(2-4)] assms(1) show ?thesis
    by (cases "encodeMetadata p") (simp_all add: writeMetadata_def Let_def)
qed

lemma Store_frame:
  assumes "P f" and "\<forall>s\<in>set (fst_links st). ls_link s \<noteq> ''soft''" and "touched pa st i p \<subseteq> T"
  shows "P (snd (filestore_Store pa encodeMetadata st i p f))"
proof (cases "\<not> Can pa (Some (fst_Control st)) p")
  case False
  obtain d g where prep: "Prepare pa (fst_data st) i p f = (d, g)" by fastforce
  with prepares [OF assms(1), of pa "fst_data st" i p] have g: "P g" by simp
  show ?thesis
  proof (cases d)
    case (Inr dir)
    with prep have dir: "dir = prepare_path pa (fst_data st) i p" by (simp add: Prepare_dir)
    have T: "touched_by pa st i p (hr_Filename p) \<subseteq> T" "touched_by pa st i p (hr_Filename p @ XML) \<subseteq> T"
      using assms(3) by (simp_all add: touched_def)
    then have "locate (Join [dir, hr_Filename p @ BAD]) \<in> T" by (auto simp: dir touched_by_def name_pair_def Let_def)
    then have r: "P (if fst_rembad st then snd (Remove (Join [dir, hr_Filename p @ BAD]) g) else g)" (is "P ?g")
      using g by (simp add: removes writes links)
    have st: "P (snd (case WriteFile (Join [dir, hr_Filename p]) bs ?g of
        (Some e, f) \<Rightarrow> (Some e, f) | (None, f) \<Rightarrow> linkToShare pa (fst_links st) (Join [dir, hr_Filename p]) i p f))" for bs
      by (rule write_and_share_frame [OF r assms(2) dir T(1)])
    have md: "P h \<Longrightarrow> P (snd (writeMetadata pa encodeMetadata st dir i p h))" for h
      by (rule writeMetadata_frame [OF _ assms(2) dir T(2)])
    show ?thesis
    proof (cases "fst_encode st p")
      case enc: (Inr bs)
      obtain e h where h: "WriteFile (Join [dir, hr_Filename p]) bs ?g = (e, h)" by fastforce
      obtain e' k where k: "linkToShare pa (fst_links st) (Join [dir, hr_Filename p]) i p h = (e', k)" by fastforce
      show ?thesis using False g st [of bs] md
        by (cases e; cases e') (simp_all add: filestore_Store_def Let_def prep Inr enc h k)
    qed (use False g in \<open>simp add: filestore_Store_def prep Inr\<close>)
  qed (use False g in \<open>simp add: filestore_Store_def prep\<close>)
qed (use assms(1) in \<open>simp add: filestore_Store_def\<close>)

end

section \<open>Operations that keep a file\<close>

text \<open>\<open>keeps T l c w f\<close>: the file at \<open>l\<close> has contents number \<open>c\<close>, which are \<open>w\<close> and which no name in \<open>T\<close> refers to.\<close>

definition keeps :: "loc set \<Rightarrow> loc \<Rightarrow> nat \<Rightarrow> bytes \<Rightarrow> fs \<Rightarrow> bool" where
  "keeps T l c w f \<longleftrightarrow>
     l \<notin> T \<and> fs_ok f \<and> node_at f l = Some (File c) \<and> fs_data f c = w \<and>
     (\<forall>t\<in>T. node_at f t \<noteq> Some (File c) \<and> \<not> is_link f t)"

lemma keepsD:
  assumes "keeps T l c w f"
  shows "l \<notin> T" "fs_ok f" "node_at f l = Some (File c)" "fs_data f c = w"
    "t \<in> T \<Longrightarrow> node_at f t \<noteq> Some (File c)" "t \<in> T \<Longrightarrow> \<not> is_link f t"
  using assms by (auto simp: keeps_def)

lemma keeps_holds: "keeps T l c w f \<Longrightarrow> holds f l w"
  by (auto simp: keeps_def holds_def)

lemma keeps_adds_dirs:
  assumes "adds_dirs f f'" and "keeps T l c w f"
  shows "keeps T l c w f'"
  unfolding keeps_def
proof (intro conjI ballI)
  note k = keepsD [OF assms(2)]
  have node: "node_at f' t = node_at f t \<or> node_at f t = None \<and> node_at f' t = Some Dir" for t
    using assms(1) unfolding adds_dirs_def by blast
  show "l \<notin> T" "fs_ok f'" using k(1) adds_dirs_ok [OF assms(1) k(2)] by blast+
  show "node_at f' l = Some (File c)" using node [of l] k(3) by simp
  show "fs_data f' c = w" using assms(1) k(4) by (simp add: adds_dirs_def)
  show "node_at f' t \<noteq> Some (File c)" if "t \<in> T" for t using node [of t] k(5) [OF that] by auto
  show "\<not> is_link f' t" if "t \<in> T" for t using adds_dirs_link [OF assms(1)] k(6) [OF that] by blast
qed

lemma keeps_Remove:
  assumes "keeps T l c w f" and "locate q \<in> T"
  shows "keeps T l c w (snd (Remove q f))"
proof -
  note k = keepsD [OF assms(1)]
  have "l \<noteq> locate q" using k(1) assms(2) by blast
  moreover have "node_at (snd (Remove q f)) t \<noteq> Some (File c) \<and> \<not> is_link (snd (Remove q f)) t" if "t \<in> T" for t
    using Remove_effect [of q f] k(5,6) [OF that] by (auto simp: is_link_def split: if_splits)
  ultimately show ?thesis using k fs_ok_ops(2) by (simp add: keeps_def)
qed

lemma keeps_WriteFile:
  assumes "keeps T l c w f" and "locate q \<in> T"
  shows "keeps T l c w (snd (WriteFile q bs f))"
proof -
  note k = keepsD [OF assms(1)]
  have ch: "chase 40 f (locate q) = Some (locate q)" by (rule chase_stop [OF k(6) [OF assms(2)]])
  have c: "c < fs_next f" using k(2,3) unfolding fs_ok_def by blast
  have ne: "l \<noteq> locate q" using k(1) assms(2) by blast
  show ?thesis
  proof (cases "node_at f (locate q)")
    case None
    with k c ne ch node_at_None [OF None] show ?thesis
      using fs_ok_ops(1) [OF k(2), of q bs] by (auto simp: keeps_def WriteFile_def is_link_def)
  next
    case (Some n)
    then show ?thesis
    proof (cases n)
      case (File j)
      with Some k(5) [OF assms(2)] have "j \<noteq> c" by auto
      with k Some File ch show ?thesis
        using fs_ok_ops(1) [OF k(2), of q bs] by (auto simp: keeps_def WriteFile_def is_link_def)
    qed (use Some ch assms(1) in \<open>simp_all add: WriteFile_def\<close>)
  qed
qed

lemma keeps_os_Link:
  assumes "keeps T l c w f" and "locate q \<in> T" and "locate r \<in> T"
  shows "keeps T l c w (snd (os_Link q r f))"
proof (cases "fst (os_Link q r f)")
  case None
  note k = keepsD [OF assms(1)]
  from None obtain f' where f': "os_Link q r f = (None, f')" by (metis prod.collapse)
  note o = os_Link_ok [OF f']
  have "l \<noteq> locate r" using k(1) assms(3) by blast
  moreover have "fs_ok f'" using fs_ok_ops(3) [OF k(2), of q r] f' by simp
  ultimately show ?thesis
    using k(1,3,4,5,6) o assms(2) by (auto simp: f' keeps_def is_link_def)
next
  case (Some e)
  have "snd (os_Link q r f) = f" using Some by (auto simp: os_Link_def split: option.splits node.splits if_splits)
  with assms(1) show ?thesis by simp
qed

interpretation keeping: file_frame T "keeps T l c w" for T l c w
  by unfold_locales (auto intro: keeps_adds_dirs keeps_Remove keeps_WriteFile keeps_os_Link)

section \<open>Storing keeps other files\<close>

text \<open>
  C22. Storing a packet damages no other file: every file whose name is not one of those of the packet (its
  file, its metadata, their corrupted variants, and the same names in the shares) keeps its
  contents, whatever the store does and wherever it fails, as long as none of these names refers to the contents of that file
  or is a symbolic link and the shares are hard links.
\<close>

theorem store_keeps_other_files:
  assumes "holds f l w" and "fs_ok f" and "l \<notin> touched pa st i p"
    and "\<forall>t\<in>touched pa st i p. node_at f t \<noteq> node_at f l \<and> \<not> is_link f t"
    and "\<forall>s\<in>set (fst_links st). ls_link s \<noteq> ''soft''"
  shows "holds (snd (filestore_Store pa encodeMetadata st i p f)) l w"
proof -
  from assms(1) obtain c where "node_at f l = Some (File c)" "fs_data f c = w" by (auto simp: holds_def)
  with assms(2-4) have "keeps (touched pa st i p) l c w f" by (auto simp: keeps_def)
  from keeps_holds [OF keeping.Store_frame [OF this assms(5) subset_refl]] show ?thesis .
qed

definition other_fs :: fs where
  "other_fs = snd (WriteFile ''/data/other.dat'' [42] sample_fs)"

definition plain_store :: filestore where
  "plain_store = \<lparr>fst_Control = sample_control, fst_data = NewDirectory ''/data'' [] [] 0, fst_rembad = True,
     fst_encode = encodeRawPacket, fst_links = []\<rparr>"

theorem store_keeps_other_files_witness:
  "holds (snd (filestore_Store sample_panda (\<lambda>_. Inr []) plain_store 255 sample_table other_fs)) (locate ''/data/other.dat'') [42]"
proof (rule store_keeps_other_files)
  have w: "fst (WriteFile ''/data/other.dat'' [42] sample_fs) = None" "node_at sample_fs (locate ''/data/other.dat'') = None"
    by code_simp+
  show "holds other_fs (locate ''/data/other.dat'') [42]"
    unfolding other_fs_def using w by (intro WriteFile_holds [of sample_fs]) (simp_all add: is_link_def prod_eq_iff)
  have "fs_ok sample_fs" unfolding sample_fs_def
    by (intro adds_dirs_ok [OF MkdirAll_adds]) (simp add: fs_ok_def empty_fs_def node_at_def)
  then show "fs_ok other_fs" unfolding other_fs_def by (rule fs_ok_ops)
  show "locate ''/data/other.dat'' \<notin> touched sample_panda plain_store 255 sample_table" by code_simp
  show "\<forall>t\<in>touched sample_panda plain_store 255 sample_table.
      node_at other_fs t \<noteq> node_at other_fs (locate ''/data/other.dat'') \<and> \<not> is_link other_fs t"
  proof -
    have "\<forall>t\<in>touched sample_panda plain_store 255 sample_table. node_at other_fs t = None" by code_simp
    moreover have "node_at other_fs (locate ''/data/other.dat'') \<noteq> None" by code_simp
    ultimately show ?thesis by (auto simp: is_link_def)
  qed
  show "\<forall>s\<in>set (fst_links plain_store). ls_link s \<noteq> ''soft''" by (simp add: plain_store_def)
qed

end
