(* ===== verification/Vmu.thy ===== *)
theory Vmu
  imports Replay Panda
begin

text \<open>
  VMU packets and HRDP records (\<^verbatim>\<open>src/vmu\<close>): the checksum, the encoders of science and image
  packets, and the HRDP header in front of them. The fields of the packet headers are declared in
  package panda: their widths are those of the values. The functions of package timutil are
  parameters. The encoded records are read back by the scanner of the replay command.
\<close>

section \<open>Constants\<close>

definition HRDLMagic :: uint32 where "HRDLMagic = 0xf82e3553"
definition FSLMagic :: uint8 where "FSLMagic = 2"
definition HRDPHeaderLen :: nat where "HRDPHeaderLen = 14"
definition HRDLSyncLen :: nat where "HRDLSyncLen = 8"
definition VMUHLen :: nat where "VMUHLen = 16"
definition SDHLenV1 :: nat where "SDHLenV1 = 8"
definition IDHLenV1 :: nat where "IDHLenV1 = 72"
definition SDHLenV2 :: nat where "SDHLenV2 = 56"
definition IDHLenV2 :: nat where "IDHLenV2 = 76"

lemmas vmu_lens = HRDPHeaderLen_def HRDLSyncLen_def VMUHLen_def SDHLenV2_def IDHLenV2_def

section \<open>Checksum\<close>

text \<open>The running sum of the bytes, modulo \<open>2 ^ 32\<close>; \<open>hrdl_Sum\<close> is the method \<^verbatim>\<open>Sum\<close>, which changes the sum.\<close>

definition hrdl_Write :: "bytes \<Rightarrow> uint32 \<Rightarrow> uint32" where
  "hrdl_Write bs h = foldl (\<lambda>h b. h + ucast b) h bs"

definition hrdl_Sum :: "bytes \<Rightarrow> uint32 \<Rightarrow> bytes \<times> uint32" where
  "hrdl_Sum bs h = (let h = hrdl_Write bs h in (le32 h, h))"

definition SumHRDL :: uint32 where "SumHRDL = 0"

definition hrdl_Size :: nat where "hrdl_Size = 4"

definition hrdl_BlockSize :: nat where "hrdl_BlockSize = 32"

definition hrdl_Reset :: "uint32 \<Rightarrow> uint32" where "hrdl_Reset h = 0"

definition hrdl_Sum32 :: "uint32 \<Rightarrow> uint32" where "hrdl_Sum32 h = h"

definition SumHRD :: "bytes \<Rightarrow> uint32" where
  "SumHRD bs = hrdl_Sum32 (hrdl_Write bs 0)"

text \<open>\<^verbatim>\<open>io.MultiWriter\<close> over a writer and a digest, whose method \<^verbatim>\<open>Write\<close> is \<open>digest\<close>.\<close>

definition multi_write :: "(bytes \<Rightarrow> 'h \<Rightarrow> 'h) \<Rightarrow> bytes \<Rightarrow> bytes \<times> 'h \<Rightarrow> bytes \<times> 'h" where
  "multi_write digest bs w = (fst w @ bs, digest bs (snd w))"

text \<open>
  What the users of a digest rely on, as package hash documents it: the digest of what was written does not depend on
  how it was divided into writes, and a digest can be used again after \<^verbatim>\<open>Reset\<close>.
\<close>

locale stream_hash =
  fixes fresh :: 'h and digest :: "bytes \<Rightarrow> 'h \<Rightarrow> 'h" and reset :: "'h \<Rightarrow> 'h"
  assumes digest_Nil: "digest [] h = h"
    and digest_append: "digest (a @ b) h = digest b (digest a h)"
    and reset_fresh: "reset h = fresh"
begin

lemma digest_chunks: "fold digest bss h = digest (concat bss) h"
  by (induction bss arbitrary: h) (simp_all add: digest_Nil digest_append)

lemma multi_writes: "fold (multi_write digest) bss (out, h) = (out @ concat bss, digest (concat bss) h)"
  by (induction bss arbitrary: out h) (simp_all add: multi_write_def digest_Nil digest_append)

lemma used_again: "fold digest bss (reset h) = fold digest bss fresh"
  by (simp add: reset_fresh)

end

lemma hrdl_Write_append: "hrdl_Write (a @ b) h = hrdl_Write b (hrdl_Write a h)"
  by (simp add: hrdl_Write_def)

interpretation hrdl: stream_hash SumHRDL hrdl_Write hrdl_Reset
  by unfold_locales (simp_all add: hrdl_Write_append, simp_all add: hrdl_Write_def hrdl_Reset_def SumHRDL_def)

section \<open>Encoders\<close>

record timutil =
  GPSTime :: "gotime \<Rightarrow> bool \<Rightarrow> gotime"
  Split5 :: "gotime \<Rightarrow> uint32 \<times> uint8"

definition put_split5 :: "uint32 \<times> uint8 \<Rightarrow> bytes" where
  "put_split5 x = be32 (fst x) @ be8 (snd x)"

definition encodeHRDPHeader :: "panda \<Rightarrow> timutil \<Rightarrow> gotime \<Rightarrow> HRPacket \<Rightarrow> bytes outcome" where
  "encodeHRDPHeader pa tm now p =
     (let sz = of_nat (HRDPHeaderLen + HRDLSyncLen + VMUHLen + 4) :: uint32;
          c = hr_Stream p
      in case (if c = Science pa then Some (sz + of_nat SDHLenV2)
               else if c = Video1 pa \<or> c = Video2 pa then Some (sz + of_nat IDHLenV2)
               else None) of
           None \<Rightarrow> Inl (Errorf ''unknown channel %d'')
         | Some sz \<Rightarrow>
             let sz = sz + of_nat (length (hr_Payload p));
                 acq = (case hr_Generated p of Some g \<Rightarrow> g | None \<Rightarrow> now)
             in Inr (le32 sz @ be16 0 @ be8 FSLMagic @ be8 c @
                     put_split5 (Split5 tm acq) @ put_split5 (Split5 tm (GPSTime tm now True))))"

definition encodeVMUHeader :: "VMUHeader \<Rightarrow> bytes" where
  "encodeVMUHeader v =
     fixed_le (vh_Channel v) @ fixed_le (vh_Source v) @ le16 0 @ le32 (vh_Sequence v) @
     fixed_le (vh_Coarse v) @ fixed_le (vh_Fine v) @ le16 0"

definition encodeSDH :: "SDHv2 \<Rightarrow> bytes" where
  "encodeSDH s =
     fixed_le (sd_Properties s) @ fixed_le (sd_Sequence s) @ fixed_le (sd_Originator s) @
     fixed_le (sd_Acquisition s) @ fixed_le (sd_Auxiliary s) @ fixed_le (sd_Id s) @ sd_Info s"

definition encodeIDH :: "IDHv2 \<Rightarrow> bytes" where
  "encodeIDH v =
     fixed_le (id_Properties v) @ fixed_le (id_Sequence v) @ fixed_le (id_Originator v) @
     fixed_le (id_Acquisition v) @ fixed_le (id_Auxiliary v) @ fixed_le (id_Id v) @
     fixed_le (id_Type v) @ concat (map fixed_le (id_Pixels v)) @ concat (map fixed_le (id_Region v)) @
     fixed_le (id_Dropping v) @ concat (map fixed_le (id_Scaling v)) @ fixed_le (id_Ratio v) @ id_Info v"

text \<open>
  What is written through the digest is the VMU header, the data header and the payload; the
  checksum follows. The size of an image is computed with the length of the science header.
\<close>

definition hrdl_frame :: "uint32 \<Rightarrow> bytes list \<Rightarrow> bytes" where
  "hrdl_frame sz bss =
     (let (out, digest) = fold (multi_write hrdl_Write) bss (be32 HRDLMagic @ le32 sz, SumHRDL)
      in fst (multi_write hrdl_Write (le32 (hrdl_Sum32 digest)) (out, digest)))"

definition encodeTable :: "HRPacket \<Rightarrow> SDH \<Rightarrow> bytes outcome" where
  "encodeTable p h =
     (let sz = of_nat (VMUHLen + SDHLenV2 + length (hr_Payload p)) - 4 :: uint32 in
      case h of
        SDHv2 s \<Rightarrow> Inr (hrdl_frame sz [encodeVMUHeader (hr_VMUHeader p), encodeSDH s, hr_Payload p])
      | _ \<Rightarrow> Inl (Errorf ''invalid SDH version''))"

definition encodeImage :: "HRPacket \<Rightarrow> IDH \<Rightarrow> bytes outcome" where
  "encodeImage p h =
     (let sz = of_nat (VMUHLen + SDHLenV2 + length (hr_Payload p)) - 4 :: uint32 in
      case h of
        IDHv2 v \<Rightarrow> Inr (hrdl_frame sz [encodeVMUHeader (hr_VMUHeader p), encodeIDH v, hr_Payload p])
      | _ \<Rightarrow> Inl (Errorf ''invalid IDH version''))"

text \<open>The bytes handed to the writer, or the error.\<close>

definition vmu_EncodePacket :: "panda \<Rightarrow> timutil \<Rightarrow> gotime \<Rightarrow> HRPacket \<Rightarrow> bool \<Rightarrow> bytes outcome" where
  "vmu_EncodePacket pa tm now p hrdp =
     (case (if hrdp then encodeHRDPHeader pa tm now p else Inr []) of
        Inl e \<Rightarrow> Inl e
      | Inr hdr \<Rightarrow>
          (case (case hr_kind p of
                   Table h \<Rightarrow> encodeTable p h
                 | Image h \<Rightarrow> encodeImage p h
                 | OtherPacket \<Rightarrow> Inl (Errorf ''unsupported packet type %T'')) of
             Inl e \<Rightarrow> Inl e
           | Inr body \<Rightarrow> Inr (hdr @ body)))"

section \<open>Properties of the checksum\<close>

lemma hrdl_Write_unat: "unat (hrdl_Write bs h) = (unat h + sum_list (map unat bs)) mod 2 ^ 32"
proof (induction bs arbitrary: h)
  case Nil
  show ?case using unat_less_pow [of h] by (simp add: hrdl_Write_def)
next
  case (Cons b bs)
  have "unat (ucast b :: uint32) = unat b" using unat_byte [of b] by (simp add: unsigned_ucast_eq take_bit_nat_eq_self)
  then have "unat (h + ucast b) = (unat h + unat b) mod 2 ^ 32"
    by (simp add: unat_word_ariths)
  moreover have "hrdl_Write (b # bs) h = hrdl_Write bs (h + ucast b)" by (simp add: hrdl_Write_def)
  ultimately show ?case by (simp add: Cons.IH mod_simps add.assoc)
qed

text \<open>
  The HRD checksum is the sum of the bytes modulo \<open>2 ^ 32\<close>, so it does not depend on how they are
  divided into writes nor on their order; the method \<^verbatim>\<open>Sum\<close> adds its argument to the running sum
  (package hash requires it to leave the state alone) and returns only the checksum.
\<close>

theorem SumHRD_sum:
  "unat (SumHRD bs) = sum_list (map unat bs) mod 2 ^ 32 \<and>
   SumHRD (a @ b) = hrdl_Write b (SumHRD a) \<and> SumHRD (a @ b) = SumHRD (b @ a) \<and>
   hrdl_Sum bs h = (le32 (hrdl_Write bs h), hrdl_Write bs h)"
proof -
  have "unat (SumHRD (a @ b)) = unat (SumHRD (b @ a))"
    by (simp add: SumHRD_def hrdl_Sum32_def hrdl_Write_unat add.commute)
  then have "SumHRD (a @ b) = SumHRD (b @ a)" by (simp add: word_unat_eq_iff)
  then show ?thesis
    by (simp add: SumHRD_def hrdl_Sum32_def hrdl_Write_unat hrdl_Write_append hrdl_Sum_def Let_def)
qed

section \<open>Properties of the encoders\<close>

lemma hrdl_frame_concat: "hrdl_frame sz bss = be32 HRDLMagic @ le32 sz @ concat bss @ le32 (SumHRD (concat bss))"
  by (simp add: hrdl_frame_def hrdl.multi_writes) (simp add: multi_write_def SumHRD_def SumHRDL_def)

text \<open>The widths of the header fields as the format defines them.\<close>

definition vmu_header_ok :: "VMUHeader \<Rightarrow> bool" where
  "vmu_header_ok v \<longleftrightarrow> length (encodeVMUHeader v) = VMUHLen"

definition sdh_ok :: "SDHv2 \<Rightarrow> bool" where
  "sdh_ok s \<longleftrightarrow> length (encodeSDH s) = SDHLenV2"

definition idh_ok :: "IDHv2 \<Rightarrow> bool" where
  "idh_ok v \<longleftrightarrow> length (encodeIDH v) = IDHLenV2"

definition vmu_packet_ok :: "panda \<Rightarrow> HRPacket \<Rightarrow> bool" where
  "vmu_packet_ok pa p \<longleftrightarrow>
     vmu_header_ok (hr_VMUHeader p) \<and> length (hr_Payload p) < 2 ^ 32 - 200 \<and>
     (case hr_kind p of
        Table (SDHv2 s) \<Rightarrow> sdh_ok s \<and> hr_Stream p = Science pa
      | Image (IDHv2 v) \<Rightarrow> idh_ok v \<and> (hr_Stream p = Video1 pa \<or> hr_Stream p = Video2 pa) \<and> hr_Stream p \<noteq> Science pa
      | _ \<Rightarrow> False)"

text \<open>The body of a record: VMU header, data header, payload and checksum.\<close>

definition data_header :: "HRPacket \<Rightarrow> bytes" where
  "data_header p = (case hr_kind p of Table (SDHv2 s) \<Rightarrow> encodeSDH s | Image (IDHv2 v) \<Rightarrow> encodeIDH v | _ \<Rightarrow> [])"

definition vmu_body :: "HRPacket \<Rightarrow> bytes" where
  "vmu_body p = encodeVMUHeader (hr_VMUHeader p) @ data_header p @ hr_Payload p"

lemma vmu_packet_cases:
  assumes "vmu_packet_ok pa p"
  obtains s where "hr_kind p = Table (SDHv2 s)" "sdh_ok s" "hr_Stream p = Science pa"
  | v where "hr_kind p = Image (IDHv2 v)" "idh_ok v" "hr_Stream p = Video1 pa \<or> hr_Stream p = Video2 pa"
      "hr_Stream p \<noteq> Science pa"
  using assms by (auto simp: vmu_packet_ok_def split: packet_kind.splits SDH.splits IDH.splits)

lemma length_vmu_body:
  assumes "vmu_packet_ok pa p"
  shows "length (vmu_body p) = 16 + (if hr_Stream p = Science pa then 56 else 76) + length (hr_Payload p)"
  using assms
  by (cases rule: vmu_packet_cases [OF assms])
    (simp_all add: vmu_body_def data_header_def vmu_packet_ok_def vmu_header_ok_def sdh_ok_def idh_ok_def vmu_lens)

definition hrdl_size :: "HRPacket \<Rightarrow> uint32" where
  "hrdl_size p = of_nat (VMUHLen + SDHLenV2 + length (hr_Payload p)) - 4"

lemma vmu_EncodePacket_frame:
  assumes "vmu_packet_ok pa p"
  shows "vmu_EncodePacket pa tm now p False = Inr (hrdl_frame (hrdl_size p) [vmu_body p])"
  by (cases rule: vmu_packet_cases [OF assms])
    (simp_all add: hrdl_frame_concat vmu_EncodePacket_def encodeTable_def encodeImage_def Let_def hrdl_size_def vmu_body_def data_header_def)

lemma vmu_EncodePacket_record:
  assumes "vmu_packet_ok pa p"
  shows "\<exists>hdr. length hdr = HRDPHeaderLen + HRDLSyncLen \<and>
    vmu_EncodePacket pa tm now p True = Inr (hrdp_record hdr (vmu_body p @ le32 (SumHRD (vmu_body p))))"
proof -
  define acq where "acq = (case hr_Generated p of Some g \<Rightarrow> g | None \<Rightarrow> now)"
  define sz where "sz = 42 + (if hr_Stream p = Science pa then 56 else 76) + length (hr_Payload p)"
  define hd1 where "hd1 = be16 0 @ be8 FSLMagic @ be8 (hr_Stream p) @
    put_split5 (Split5 tm acq) @ put_split5 (Split5 tm (GPSTime tm now True))"
  define hdr where "hdr = hd1 @ be32 HRDLMagic @ le32 (hrdl_size p)"
  have len: "length hdr = 22" by (simp add: hdr_def hd1_def put_split5_def)
  have "encodeHRDPHeader pa tm now p = Inr (le32 (of_nat sz) @ hd1)"
    by (cases rule: vmu_packet_cases [OF assms])
      (auto simp: encodeHRDPHeader_def Let_def vmu_lens hd1_def acq_def sz_def algebra_simps)
  moreover have "(case hr_kind p of Table h \<Rightarrow> encodeTable p h | Image h \<Rightarrow> encodeImage p h
      | OtherPacket \<Rightarrow> Inl (Errorf ''unsupported packet type %T'')) = Inr (hrdl_frame (hrdl_size p) [vmu_body p])"
    using vmu_EncodePacket_frame [OF assms, of tm now] by (auto simp: vmu_EncodePacket_def split: sum.splits)
  ultimately have "vmu_EncodePacket pa tm now p True = Inr (le32 (of_nat sz) @ hdr @ vmu_body p @ le32 (SumHRD (vmu_body p)))"
    by (simp add: vmu_EncodePacket_def hrdl_frame_concat hdr_def)
  moreover have "sz = length hdr + length (vmu_body p @ le32 (SumHRD (vmu_body p)))"
    by (simp add: len length_vmu_body [OF assms] sz_def)
  ultimately show ?thesis using len by (auto simp: hrdp_record_def vmu_lens)
qed

lemma vmu_record_small:
  "vmu_packet_ok pa p \<Longrightarrow> 22 + length (vmu_body p @ le32 (SumHRD (vmu_body p))) < 2 ^ 32"
  using length_vmu_body [of pa p] by (simp add: vmu_packet_ok_def)

text \<open>
  C17. Recording and replaying are inverse: a file of packets written by the HRDP encoder (science and image
  packets with headers of the documented widths) is split by the scanner of the replay command into exactly
  their VMU headers, data headers, payloads and checksums, in order and whatever the
  chunking of the reads, and the last four bytes of each token are the checksum of the others.
\<close>

theorem record_replay_roundtrip:
  assumes "\<forall>p\<in>set ps. vmu_packet_ok pa p" and "map (\<lambda>p. vmu_EncodePacket pa tm now p True) ps = map Inr recs"
    and "\<forall>x\<in>set recs. length x \<le> limit" and "0 < limit" and "concat chunks = concat recs"
  shows "scan (scanVMUPackets HRDPHeaderLen HRDLSyncLen) limit [] chunks =
    (map (\<lambda>p. vmu_body p @ le32 (SumHRD (vmu_body p))) ps @ [[]], ScanDone)"
proof -
  define tok where "tok p = vmu_body p @ le32 (SumHRD (vmu_body p))" for p
  have "\<forall>p\<in>set ps. \<exists>hdr. length hdr = HRDPHeaderLen + HRDLSyncLen \<and>
      vmu_EncodePacket pa tm now p True = Inr (hrdp_record hdr (tok p))"
    using assms(1) vmu_EncodePacket_record unfolding tok_def by blast
  then obtain h where h: "\<forall>p\<in>set ps. length (h p) = HRDPHeaderLen + HRDLSyncLen \<and>
      vmu_EncodePacket pa tm now p True = Inr (hrdp_record (h p) (tok p))" by metis
  have "(map Inr recs :: bytes outcome list) = map Inr (map (\<lambda>p. hrdp_record (h p) (tok p)) ps)"
    unfolding assms(2) [symmetric] using h by simp
  then have recs: "recs = map (\<lambda>p. hrdp_record (h p) (tok p)) ps"
    by (simp add: inj_map_eq_map del: map_map)
  have "\<forall>x\<in>set (map (\<lambda>p. (h p, tok p)) ps). record_ok HRDPHeaderLen HRDLSyncLen limit x"
    using h assms(1,3) vmu_record_small recs by (auto simp: record_ok_def vmu_lens tok_def)
  moreover have "[] @ concat chunks = hrdp_file (map (\<lambda>p. (h p, tok p)) ps)"
    by (simp add: assms(5) hrdp_file_def recs comp_def)
  ultimately have "scan (scanVMUPackets HRDPHeaderLen HRDLSyncLen) limit [] chunks =
      (map snd (map (\<lambda>p. (h p, tok p)) ps) @ [[]], ScanDone)"
    using assms(4) by (intro scan_records) auto
  then show ?thesis by (simp add: tok_def comp_def)
qed

definition sample_timutil :: timutil where
  "sample_timutil = \<lparr>GPSTime = (\<lambda>t _. t), Split5 = (\<lambda>t. (of_int (Unix t), 0))\<rparr>"

theorem record_replay_roundtrip_witness:
  "\<exists>r. vmu_EncodePacket sample_panda sample_timutil zero_time sample_table True = Inr r \<and>
    scan (scanVMUPackets HRDPHeaderLen HRDLSyncLen) (8 * 2 ^ 20) [] [take 10 r, drop 10 r] =
     (map (\<lambda>p. vmu_body p @ le32 (SumHRD (vmu_body p))) [sample_table] @ [[]], ScanDone)"
proof -
  have ok: "vmu_packet_ok sample_panda sample_table"
    by (simp add: vmu_packet_ok_def vmu_header_ok_def sdh_ok_def encodeVMUHeader_def encodeSDH_def
        sample_table_def sample_vmu_header_def sample_sdh_def sample_panda_def vmu_lens)
  from vmu_EncodePacket_record [OF ok, of sample_timutil zero_time] obtain hdr where
    hdr: "length hdr = 22" and enc: "vmu_EncodePacket sample_panda sample_timutil zero_time sample_table True =
      Inr (hrdp_record hdr (vmu_body sample_table @ le32 (SumHRD (vmu_body sample_table))))"
    by (auto simp: vmu_lens)
  let ?r = "hrdp_record hdr (vmu_body sample_table @ le32 (SumHRD (vmu_body sample_table)))"
  have "length ?r \<le> 8 * 2 ^ 20"
    using length_vmu_body [OF ok] hdr by (simp add: hrdp_record_def sample_table_def)
  then show ?thesis
    using record_replay_roundtrip [of "[sample_table]" sample_panda sample_timutil zero_time "[?r]" "8 * 2 ^ 20"
        "[take 10 ?r, drop 10 ?r]"] ok enc by simp
qed

text \<open>
  The HRDL size of an image packet is wrong: for a science packet the size field is the
  number of bytes between it and the checksum less four, for an image it is twenty bytes smaller than that,
  since it is computed with the length of the science header.
\<close>

theorem hrdl_size_of_image:
  assumes "vmu_packet_ok pa p"
  shows "\<exists>sz. vmu_EncodePacket pa tm now p False = Inr (be32 HRDLMagic @ le32 sz @ vmu_body p @ le32 (SumHRD (vmu_body p))) \<and>
    (\<not> is_Image p \<longrightarrow> unat sz = length (vmu_body p) - 4) \<and>
    (is_Image p \<longrightarrow> unat sz = length (vmu_body p) - 4 - 20)"
proof -
  have small: "length (hr_Payload p) < 2 ^ 32 - 200" using assms by (simp add: vmu_packet_ok_def)
  have "hrdl_size p = of_nat (68 + length (hr_Payload p))"
    by (simp add: hrdl_size_def vmu_lens)
  then have "unat (hrdl_size p) = 68 + length (hr_Payload p)"
    using small by (simp add: unat_of_nat_small del: of_nat_add)
  moreover have "is_Image p \<longleftrightarrow> hr_Stream p \<noteq> Science pa"
    by (cases rule: vmu_packet_cases [OF assms]) (auto simp: is_Image_def)
  ultimately show ?thesis
    using vmu_EncodePacket_frame [OF assms, of tm now] length_vmu_body [OF assms]
    by (auto simp: hrdl_frame_concat)
qed

theorem hrdl_size_of_image_witness:
  "\<exists>sz. vmu_EncodePacket sample_panda sample_timutil zero_time sample_table False =
      Inr (be32 HRDLMagic @ le32 sz @ vmu_body sample_table @ le32 (SumHRD (vmu_body sample_table))) \<and>
    unat sz = length (vmu_body sample_table) - 4"
proof -
  have "vmu_packet_ok sample_panda sample_table"
    by (simp add: vmu_packet_ok_def vmu_header_ok_def sdh_ok_def encodeVMUHeader_def encodeSDH_def
        sample_table_def sample_vmu_header_def sample_sdh_def sample_panda_def vmu_lens)
  moreover have "\<not> is_Image sample_table" by (simp add: is_Image_def sample_table_def)
  ultimately show ?thesis
    using hrdl_size_of_image [of sample_panda sample_table sample_timutil zero_time] by blast
qed

end
