(* ===== verification/Archives.thy ===== *)
theory Archives
  imports Filestore Vmu
begin

text \<open>
  The storages that append packets to rolling files: tar archives (\<^verbatim>\<open>src/storage/archives.go\<close>) and
  HRDP or hadock records (\<^verbatim>\<open>src/storage/hrdp.go\<close>). Package roll, which decides when a file is
  replaced by the next one, is a parameter: a function that makes a roller and one that
  writes data to it, calling the storage's function for the header first.
\<close>

section \<open>Archives\<close>

record tar_header =
  th_Name :: string
  th_Size :: nat
  th_ModTime :: gotime
  th_Gid :: int
  th_Uid :: int
  th_Mode :: int

record 'r roll =
  Roll :: "string \<Rightarrow> fs \<Rightarrow> 'r outcome \<times> fs"
  WriteData :: "'r \<Rightarrow> bytes \<Rightarrow> (fs \<Rightarrow> tar_header \<times> fs) \<Rightarrow> fs \<Rightarrow> go_error option \<times> 'r \<times> fs"

record 'r tarstore =
  ts_Control :: Control
  ts_datadir :: string
  ts_tardir :: dirmaker
  ts_caches :: "(string \<times> 'r) list"

definition NewArchiveStorage :: "Options \<Rightarrow> fs \<Rightarrow> 'r tarstore outcome" where
  "NewArchiveStorage opt f =
     (case Stat f (o_Location opt) of
        None \<Rightarrow> Inl ENOENT
      | Some n \<Rightarrow>
          if n \<noteq> Dir then Inl (Errorf ''%s: not a directory'')
          else Inr \<lparr>ts_Control = o_Control opt, ts_datadir = o_Location opt,
                    ts_tardir = NewDirectory '''' (o_Epoch opt) (o_Levels opt) (o_Interval opt), ts_caches = []\<rparr>)"

definition cacheKey :: "uint8 \<Rightarrow> HRPacket \<Rightarrow> string" where
  "cacheKey i p =
     (let base = instanceDir '''' i;
          base = modeDir base p;
          base = typeDir base p
      in Join [base, hr_Origin p])"

text \<open>
  The function called before the data is written. The error of \<^verbatim>\<open>Prepare\<close> is dropped: its
  directory is then the empty string.
\<close>

definition tar_before :: "panda \<Rightarrow> dirmaker \<Rightarrow> uint8 \<Rightarrow> HRPacket \<Rightarrow> string \<Rightarrow> bytes \<Rightarrow> fs \<Rightarrow> tar_header \<times> fs" where
  "tar_before pa d i p name buf f =
     (let (res, f) = Prepare pa d i p f;
          dir = (case res of Inl _ \<Rightarrow> '''' | Inr dir \<Rightarrow> dir)
      in (\<lparr>th_Name = Join [dir, name], th_Size = length buf, th_ModTime = hr_Timestamp p, th_Gid = 1000,
           th_Uid = 1000, th_Mode = 420\<rparr>, f))"

definition storeMetadata ::
  "panda \<Rightarrow> 'r roll \<Rightarrow> (HRPacket \<Rightarrow> bytes outcome) \<Rightarrow> dirmaker \<Rightarrow> 'r \<Rightarrow> uint8 \<Rightarrow> HRPacket \<Rightarrow> fs \<Rightarrow>
   go_error option \<times> 'r \<times> fs" where
  "storeMetadata pa ro encodeMetadata d w i p f =
     (case encodeMetadata p of
        Inl e \<Rightarrow> (Some e, w, f)
      | Inr buf \<Rightarrow> WriteData ro w buf (tar_before pa d i p (hr_Filename p @ XML) buf) f)"

definition tarstore_Store ::
  "panda \<Rightarrow> 'r roll \<Rightarrow> (HRPacket \<Rightarrow> bytes outcome) \<Rightarrow> uint8 \<Rightarrow> HRPacket \<Rightarrow> 'r tarstore \<times> fs \<Rightarrow>
   go_error option \<times> 'r tarstore \<times> fs" where
  "tarstore_Store pa ro encodeMetadata i p = (\<lambda>(t, f).
     if \<not> Can pa (Some (ts_Control t)) p then (None, t, f)
     else
       let k = cacheKey i p;
           (res, t, f) =
             (case map_of (ts_caches t) k of
                Some w \<Rightarrow> (Inr w, t, f)
              | None \<Rightarrow>
                  (case Roll ro (Join [ts_datadir t, k]) f of
                     (Inl e, f) \<Rightarrow> (Inl e, t, f)
                   | (Inr w, f) \<Rightarrow> (Inr w, t\<lparr>ts_caches := AList.update k w (ts_caches t)\<rparr>, f)))
       in case res of
            Inl e \<Rightarrow> (Some e, t, f)
          | Inr w \<Rightarrow>
              (case encodeRawPacket p of
                 Inl e \<Rightarrow> (Some e, t, f)
               | Inr buf \<Rightarrow>
                   let (err, w, f) = WriteData ro w buf (tar_before pa (ts_tardir t) i p (hr_Filename p) buf) f;
                       (err, w, f) =
                         (if err = None \<and> is_Image p then storeMetadata pa ro encodeMetadata (ts_tardir t) w i p f
                          else (err, w, f))
                   in (err, t\<lparr>ts_caches := AList.update k w (ts_caches t)\<rparr>, f)))"

text \<open>The next archive: its path, and its creation, which truncates a file of that name.\<close>

definition archive_path :: "string \<Rightarrow> gotime \<Rightarrow> string \<times> string" where
  "archive_path base w =
     (let datadir = Join [base, pad_int 4 (Year w), pad_int 3 (YearDay w), pad_int 2 (Hour w)]
      in (datadir, Join [datadir, ''hdk_'' @ format_hms w @ ''.tar'']))"

definition nextFunc :: "string \<Rightarrow> gotime \<Rightarrow> fs \<Rightarrow> string outcome \<times> fs" where
  "nextFunc base w f =
     (let (datadir, name) = archive_path base w in
      case MkdirAll datadir f of
        (Some e, f) \<Rightarrow> (Inl e, f)
      | (None, f) \<Rightarrow>
          (case WriteFile name [] f of (Some e, f) \<Rightarrow> (Inl e, f) | (None, f) \<Rightarrow> (Inr name, f)))"

section \<open>Records\<close>

definition hrdpHeaderSize :: nat where "hrdpHeaderSize = 44"

text \<open>\<^verbatim>\<open>strconv.ParseUint(s, 16, 8)\<close>: hexadecimal digits with a value below 256.\<close>

definition hex_digit :: "char \<Rightarrow> nat option" where
  "hex_digit c =
     (let n = of_char c :: nat in
      if 48 \<le> n \<and> n \<le> 57 then Some (n - 48)
      else if 97 \<le> n \<and> n \<le> 102 then Some (n - 87)
      else if 65 \<le> n \<and> n \<le> 70 then Some (n - 55)
      else None)"

fun hex_value :: "nat \<Rightarrow> string \<Rightarrow> nat option" where
  "hex_value acc [] = Some acc"
| "hex_value acc (c # s) = (case hex_digit c of None \<Rightarrow> None | Some d \<Rightarrow> hex_value (16 * acc + d) s)"

definition ParseUint16_8 :: "string \<Rightarrow> uint8 outcome" where
  "ParseUint16_8 s =
     (case (if s = [] then None else hex_value 0 s) of
        None \<Rightarrow> Inl (ErrSentinel ''invalid syntax'')
      | Some n \<Rightarrow> if n < 256 then Inr (of_nat n) else Inl (ErrSentinel ''value out of range''))"

text \<open>
  The writer is a function on the state; \<open>encodeHadock\<close> drops its error. \<^verbatim>\<open>copy\<close> keeps at most 32
  bytes of the user information and leaves zeros behind it.
\<close>

definition upi_field :: "HRPacket \<Rightarrow> bytes" where
  "upi_field p = (let u = take 32 (bytes_of_string (getUPI p)) in u @ replicate (32 - length u) 0)"

definition hadock_record :: "uint8 \<Rightarrow> HRPacket \<Rightarrow> bytes outcome" where
  "hadock_record i p =
     (case ParseUint16_8 (hr_Origin p) of
        Inl e \<Rightarrow> Inl e
      | Inr orig \<Rightarrow>
          (case encodeRawPacket p of
             Inl e \<Rightarrow> Inl e
           | Inr b \<Rightarrow>
               Inr (be32 (of_nat (length b + hrdpHeaderSize)) @ be8 i @ be8 (hr_Stream p) @ put_bool (hr_IsRealtime p) @
                    be8 orig @ be32 (hr_Sequence p) @ be32 (of_int (Unix (hr_Timestamp p))) @ upi_field p @ b)))"

definition encodeHadock :: "(bytes \<Rightarrow> 's \<Rightarrow> go_error option \<times> 's) \<Rightarrow> 's Storage" where
  "encodeHadock write i p s =
     (case hadock_record i p of Inl e \<Rightarrow> (Some e, s) | Inr w \<Rightarrow> (None, snd (write w s)))"

definition encodeHRDP :: "panda \<Rightarrow> timutil \<Rightarrow> gotime \<Rightarrow> (bytes \<Rightarrow> 's \<Rightarrow> go_error option \<times> 's) \<Rightarrow> 's Storage" where
  "encodeHRDP pa tm now write i p s =
     (case vmu_EncodePacket pa tm now p True of Inl e \<Rightarrow> (Some e, s) | Inr w \<Rightarrow> write w s)"

datatype hrdp_format = FormatVMU | FormatHadock

definition NewHRDPStorage :: "'r roll \<Rightarrow> Options \<Rightarrow> fs \<Rightarrow> (string \<times> hrdp_format \<times> 'r) outcome \<times> fs" where
  "NewHRDPStorage ro opt f =
     (case Stat f (o_Location opt) of
        None \<Rightarrow> (Inl ENOENT, f)
      | Some n \<Rightarrow>
          if n \<noteq> Dir then (Inl (Errorf ''%s: not a directory''), f)
          else
            let fmt = ToLower (o_Format opt);
                enc = (if fmt = ''hrdp'' \<or> fmt = ''vmu'' then Some FormatVMU
                       else if fmt = ''hadock'' \<or> fmt = ''hdk'' then Some FormatHadock else None)
            in (case enc of
                  None \<Rightarrow> (Inl (Errorf ''unknown format %q''), f)
                | Some e \<Rightarrow>
                    (case Roll ro (o_Location opt) f of
                       (Inl err, f) \<Rightarrow> (Inl err, f)
                     | (Inr w, f) \<Rightarrow> (Inr (o_Location opt, e, w), f))))"

definition hrdpstore_Store ::
  "panda \<Rightarrow> timutil \<Rightarrow> gotime \<Rightarrow> hrdp_format \<Rightarrow> (bytes \<Rightarrow> 's \<Rightarrow> go_error option \<times> 's) \<Rightarrow> 's Storage" where
  "hrdpstore_Store pa tm now fmt write =
     (case fmt of FormatVMU \<Rightarrow> encodeHRDP pa tm now write | FormatHadock \<Rightarrow> encodeHadock write)"

text \<open>The next file of records is opened for appending and created when it does not exist.\<close>

definition hrdpstore_Open :: "string \<Rightarrow> gotime \<Rightarrow> fs \<Rightarrow> string outcome \<times> fs" where
  "hrdpstore_Open base w f =
     (let datadir = Join [base, pad_int 4 (Year w), pad_int 3 (YearDay w), pad_int 2 (Hour w)];
          name = Join [datadir, ''hdk_'' @ format_hms w @ ''.dat'']
      in case MkdirAll datadir f of
           (Some e, f) \<Rightarrow> (Inl e, f)
         | (None, f) \<Rightarrow>
             (case Stat f name of
                Some (File _) \<Rightarrow> (Inr name, f)
              | Some _ \<Rightarrow> (Inl EISDIR, f)
              | None \<Rightarrow> (case WriteFile name [] f of (Some e, f) \<Rightarrow> (Inl e, f) | (None, f) \<Rightarrow> (Inr name, f))))"

section \<open>Properties of the archives\<close>

lemma cacheKey_render:
  assumes "plain_name (hr_Origin p)"
  shows "cacheKey i p = render False [instance_name i, mode_name p, type_name p, hr_Origin p]"
proof -
  have "instanceDir [] i = render False [instance_name i]"
    by (simp add: instanceDir_def Join_empty_base instance_name_plain)
  then show ?thesis
    using assms by (simp add: cacheKey_def modeDir_def typeDir_def Join_render instance_name_plain type_mode_plain)
qed

lemma cacheKey_inj:
  assumes "plain_name (hr_Origin p)" and "plain_name (hr_Origin q)"
  shows "cacheKey i p = cacheKey j q \<longleftrightarrow>
    i = j \<and> hr_IsRealtime p = hr_IsRealtime q \<and> packet_class p = packet_class q \<and> hr_Origin p = hr_Origin q"
  using assms
  by (simp add: cacheKey_render render_inj instance_name_plain type_mode_plain instance_name_inj mode_name_inj
      type_name_inj)

text \<open>A roller that keeps its entries in memory.\<close>

definition recorder :: "(tar_header \<times> bytes) list roll" where
  "recorder = \<lparr>Roll = (\<lambda>_ f. (Inr [], f)),
     WriteData = (\<lambda>w buf before f. let (h, f) = before f in (None, w @ [(h, buf)], f))\<rparr>"

definition entries :: "(tar_header \<times> bytes) list tarstore \<Rightarrow> string \<Rightarrow> (tar_header \<times> bytes) list" where
  "entries t k = (case map_of (ts_caches t) k of None \<Rightarrow> [] | Some w \<Rightarrow> w)"



text \<open>
  The name of a rolled file has a resolution of one second. An archive rolled within the
  second its predecessor was opened in truncates it, so that all its entries are lost; the
  storage of records appends and keeps them.
\<close>

theorem rolled_within_a_second:
  assumes "local_secs w = local_secs w'"
  shows "archive_path base w = archive_path base w' \<and>
    (holds f (locate (snd (archive_path base w))) bs \<and> nextFunc base w' f = (Inr name, f') \<longrightarrow>
       name = snd (archive_path base w) \<and> holds f' (locate name) []) \<and>
    (hrdpstore_Open base w' f = (Inr name, f') \<and> holds f (locate name) bs \<longrightarrow> holds f' (locate name) bs)"
proof (intro conjI impI)
  show path: "archive_path base w = archive_path base w'"
    using assms by (simp add: archive_path_def format_hms_def Year_def YearDay_def day_number_def Hour_def
        Minute_def Second_def)
  {
    assume *: "holds f (locate (snd (archive_path base w))) bs \<and> nextFunc base w' f = (Inr name, f')"
    obtain d m where p: "archive_path base w' = (d, m)" by fastforce
    with * obtain f1 where mk: "MkdirAll d f = (None, f1)" and wr: "WriteFile m [] f1 = (None, f')" and m: "name = m"
      by (auto simp: nextFunc_def split: prod.splits option.splits)
    then have "holds f1 (locate m) bs"
      using * p adds_dirs_holds [OF MkdirAll_adds [of f d]] by (simp add: path mk)
    from WriteFile_holds [OF holds_no_link [OF this] wr] show "name = snd (archive_path base w)" "holds f' (locate name) []"
      by (simp_all add: path p m)
  }
  assume *: "hrdpstore_Open base w' f = (Inr name, f') \<and> holds f (locate name) bs"
  define d where "d = Join [base, pad_int 4 (Year w'), pad_int 3 (YearDay w'), pad_int 2 (Hour w')]"
  obtain e f1 where mk: "MkdirAll d f = (e, f1)" by fastforce
  have h: "holds f1 (locate name) bs"
    using * adds_dirs_holds [OF MkdirAll_adds [of f d]] by (simp add: mk)
  then obtain k where k: "node_at f1 (locate name) = Some (File k)" by (auto simp: holds_def)
  have st: "Stat f1 name = Some (File k)" by (simp add: Stat_def chase_stop [OF holds_no_link [OF h]] k)
  have name: "e = None" "name = Join [d, ''hdk_'' @ format_hms w' @ ''.dat'']"
    using * mk by (auto simp: hrdpstore_Open_def Let_def d_def [symmetric] split: option.splits node.splits prod.splits)
  have "hrdpstore_Open base w' f = (Inr name, f1)"
    using mk st unfolding name hrdpstore_Open_def Let_def d_def [symmetric] by simp
  then show "holds f' (locate name) bs" using * h by simp
qed

theorem rolled_within_a_second_witness:
  "archive_path ''/data'' (time_Unix 0 1000) = archive_path ''/data'' ((time_Unix 0 1000)\<lparr>t_ns := t_ns (time_Unix 0 1000) + 5\<rparr>)"
  by (rule rolled_within_a_second [THEN conjunct1]) (simp add: local_secs_def time_Unix_def unix_epoch_def)

section \<open>Properties of the records\<close>

definition read_record :: "bytes rd" where
  "read_record = rd_bind read_u32 (\<lambda>n. ReadFull (unat n))"

interpretation sized_record: codec "\<lambda>bs. length bs < 2 ^ 32" "\<lambda>bs. be32 (of_nat (length bs)) @ bs" read_record
  by unfold_locales (simp add: read_record_def wire_simps unat_of_nat_small)

lemma length_upi_field [simp]: "length (upi_field p) = 32"
  by (simp add: upi_field_def Let_def)

lemma hadock_record_sized:
  assumes "hadock_record i p = Inr w" and "encodeRawPacket p = Inr b"
  obtains fixd where "length fixd = 44" and "w = be32 (of_nat (length (fixd @ b))) @ fixd @ b"
proof -
  from assms obtain orig where orig: "ParseUint16_8 (hr_Origin p) = Inr orig"
    by (auto simp: hadock_record_def split: sum.splits)
  define fixd where "fixd = be8 i @ be8 (hr_Stream p) @ put_bool (hr_IsRealtime p) @ be8 orig @ be32 (hr_Sequence p) @
    be32 (of_int (Unix (hr_Timestamp p))) @ upi_field p"
  have len: "length fixd = 44" by (simp add: fixd_def)
  then have "length b + hrdpHeaderSize = length (fixd @ b)" by (simp add: hrdpHeaderSize_def)
  then have "w = be32 (of_nat (length (fixd @ b))) @ fixd @ b"
    using assms orig by (simp add: hadock_record_def fixd_def del: length_append of_nat_add)
  with len that show thesis by blast
qed

text \<open>
  A hadock record is a big-endian length followed by that many bytes: a fixed part of 44
  bytes and the raw packet. A reader of such records gets the record back and is left at the next one, for packets
  below 4 GB. An error of the underlying writer is dropped: the storage reports success
  although nothing was written.
\<close>

theorem hadock_record_framing:
  assumes "hadock_record i p = Inr w" and "encodeRawPacket p = Inr b" and "length b + 44 < 2 ^ 32"
  shows "(\<exists>fixd. length fixd = 44 \<and> read_record (source (w @ rest) e) = (Inr (fixd @ b), source rest e)) \<and>
    fst (encodeHadock write i p s) = None"
proof -
  obtain fixd where len: "length fixd = 44" and "w = be32 (of_nat (length (fixd @ b))) @ fixd @ b"
    by (rule hadock_record_sized [OF assms(1,2)])
  then have "read_record (source (w @ rest) e) = (Inr (fixd @ b), source rest e)"
    using sized_record.get_put [of "fixd @ b" rest e] assms(3) by (simp del: of_nat_add)
  with len show ?thesis using assms(1) by (auto simp: encodeHadock_def)
qed

theorem hadock_record_framing_witness:
  "\<exists>w. hadock_record 255 sample_table = Inr w \<and> fst (encodeHadock (\<lambda>_ s. (Some ENOENT, s)) 255 sample_table ()) = None"
proof -
  obtain b where b: "encodeRawPacket sample_table = Inr b" "length b = 19"
    by (simp add: encodeRawPacket_def sample_table_def raw_time_def sample_sdh_def)
  have "ParseUint16_8 (hr_Origin sample_table) = Inr 0x36" by code_simp
  with b obtain w where w: "hadock_record 255 sample_table = Inr w" by (simp add: hadock_record_def)
  from hadock_record_framing [OF w b(1), of "[]" EOF "\<lambda>_ s. (Some ENOENT, s)" "()"] w b(2) show ?thesis by simp
qed

end
