(* ===== verification/Notifier.thy ===== *)
theory Notifier
  imports Complex_Main Go_Reader Go_Sort Panda
begin

text \<open>
  Notification messages (\<^verbatim>\<open>src/notifier.go\<close>): the filter of a notifier, the datagram the
  external notifier sends, the decoder the receivers run on it, and the description of the
  user of a packet. The pool that builds the messages is in theory Pool.
\<close>

section \<open>Messages\<close>

text \<open>Signed fields are words read with \<open>sint\<close>, as Go's int32 and int64 are two's complement.\<close>

record Message =
  msg_Origin :: string
  msg_Sequence :: uint32
  msg_Instance :: uint32
  msg_Channel :: Channel
  msg_Realtime :: bool
  msg_Count :: uint32
  msg_Elapsed :: uint64
  msg_Generated :: uint64
  msg_Acquired :: uint64
  msg_Reference :: string
  msg_UPI :: string

definition new_Message :: Message where
  "new_Message = \<lparr>msg_Origin = [], msg_Sequence = 0, msg_Instance = 0, msg_Channel = 0, msg_Realtime = False,
     msg_Count = 0, msg_Elapsed = 0, msg_Generated = 0, msg_Acquired = 0, msg_Reference = [], msg_UPI = []\<rparr>"

definition readString :: "string rd" where
  "readString = rd_bind read_u16 (\<lambda>z. rd_bind (ReadFull (unat z)) (\<lambda>bs. rd_return (string_of_bytes bs)))"

text \<open>
  The message is returned as far as it was filled in. The errors of the fixed-size fields are
  dropped, those of the three strings end the decoding.
\<close>

definition DecodeMessage :: "reader \<Rightarrow> (Message \<times> go_error option) \<times> reader" where
  "DecodeMessage r =
     (case readString r of
        (Inl e, r) \<Rightarrow> ((new_Message, Some e), r)
      | (Inr origin, r) \<Rightarrow>
          let (sq, r) = read_into 0 read_u32 r in
          let (inst, r) = read_into 0 read_u32 r in
          let (chan, r) = read_into 0 read_u8 r in
          let (rt, r) = read_into False read_bool r in
          let (cnt, r) = read_into 0 read_u32 r in
          let (ela, r) = read_into 0 read_u64 r in
          let (gen, r) = read_into 0 read_u64 r in
          let (acq, r) = read_into 0 read_u64 r in
          let msg = \<lparr>msg_Origin = origin, msg_Sequence = sq, msg_Instance = inst, msg_Channel = chan,
                msg_Realtime = rt, msg_Count = cnt, msg_Elapsed = ela, msg_Generated = gen,
                msg_Acquired = acq, msg_Reference = [], msg_UPI = []\<rparr> in
          (case readString r of
             (Inl e, r) \<Rightarrow> ((msg, Some e), r)
           | (Inr ref, r) \<Rightarrow>
               (case readString r of
                  (Inl e, r) \<Rightarrow> ((msg\<lparr>msg_Reference := ref\<rparr>, Some e), r)
                | (Inr upi, r) \<Rightarrow> ((msg\<lparr>msg_Reference := ref, msg_UPI := upi\<rparr>, None), r))))"

section \<open>The filter of a notifier\<close>

record Options =
  opt_Source :: string
  opt_Instance :: uint32
  opt_Channels :: "Channel list"

text \<open>The receiver may be a nil pointer, which accepts every message.\<close>

definition Accept :: "Options option \<Rightarrow> Message \<Rightarrow> go_error option" where
  "Accept opts m =
     (case opts of
        None \<Rightarrow> None
      | Some c \<Rightarrow>
          if 0 \<le> sint (opt_Instance c) \<and> opt_Instance c \<noteq> msg_Instance m
          then Some (Errorf ''instance %d not accepted'')
          else
            let ch = opt_Channels c;
                ix = sort_Search (length ch) (\<lambda>i. ch ! i \<le> msg_Channel m)
            in if 0 < length ch \<and> (length ch \<le> ix \<or> ch ! ix \<noteq> msg_Channel m)
               then Some (Errorf ''channel %d not accepted'')
               else
                 let ok = (if opt_Source c = ''realtime'' then msg_Realtime m
                           else if opt_Source c = ''playback'' then \<not> msg_Realtime m
                           else opt_Source c = '''')
                 in if \<not> ok then Some (Errorf ''source not accepted'') else None)"

section \<open>Sending\<close>

definition put_string :: "string \<Rightarrow> bytes" where
  "put_string s = be16 (of_nat (length (bytes_of_string s))) @ bytes_of_string s"

definition encode_message :: "Message \<Rightarrow> bytes" where
  "encode_message m =
     put_string (msg_Origin m) @ be32 (msg_Sequence m) @ be32 (msg_Instance m) @ be8 (msg_Channel m) @
     put_bool (msg_Realtime m) @ be32 (msg_Count m) @ be64 (msg_Elapsed m) @ be64 (msg_Generated m) @
     be64 (msg_Acquired m) @ put_string (msg_Reference m) @ put_string (msg_UPI m)"

text \<open>
  The connection is a function that takes a datagram and changes the state of the network. A
  message the filter refuses is dropped without an error.
\<close>

definition notifier_Notify ::
  "Options option \<Rightarrow> (bytes \<Rightarrow> 's \<Rightarrow> go_error option \<times> 's) \<Rightarrow> Message \<Rightarrow> 's \<Rightarrow> go_error option \<times> 's" where
  "notifier_Notify opts conn m s =
     (case Accept opts m of Some _ \<Rightarrow> (None, s) | None \<Rightarrow> conn (encode_message m) s)"

text \<open>
  The debugging notifier writes one line; its rate is the number of packets per second, or the
  number of packets when nothing elapsed. Rates are exact rationals here; the sources use
  floating point numbers.
\<close>

definition debug_rate :: "Message \<Rightarrow> rat" where
  "debug_rate m =
     (let secs = of_int (sint (msg_Elapsed m)) / 1000000000 in
      if 0 < secs then of_int (uint (msg_Count m)) / secs else of_int (uint (msg_Count m)))"

definition debugger_Notify ::
  "Options option \<Rightarrow> (rat \<times> Message \<Rightarrow> 's \<Rightarrow> 's) \<Rightarrow> Message \<Rightarrow> 's \<Rightarrow> go_error option \<times> 's" where
  "debugger_Notify opts logger m s =
     (case Accept opts m of Some _ \<Rightarrow> (None, s) | None \<Rightarrow> (None, logger (debug_rate m, m) s))"

section \<open>The user of a packet\<close>

definition extractUserInfo :: "HRPacket \<Rightarrow> string" where
  "extractUserInfo p =
     (let alt = (case hr_kind p of Table _ \<Rightarrow> ''SCIENCE'' | Image _ \<Rightarrow> ''IMAGE'' | OtherPacket \<Rightarrow> '''');
          bs = (case hr_kind p of
                  Table (SDHv2 s) \<Rightarrow> sd_Info s
                | Image (IDHv2 v) \<Rightarrow> id_Info v
                | Image (IDHv1 info) \<Rightarrow> info
                | _ \<Rightarrow> replicate 32 0);
          upi = trim_zeros bs
      in if hr_kind p \<noteq> OtherPacket \<and> hr_IsRealtime p then alt
         else if 0 < length upi then string_of_bytes upi else alt)"

section \<open>Properties of the filter\<close>

definition filter_matches :: "Options \<Rightarrow> Message \<Rightarrow> bool" where
  "filter_matches c m \<longleftrightarrow>
     (0 \<le> sint (opt_Instance c) \<longrightarrow> opt_Instance c = msg_Instance m) \<and>
     (opt_Channels c \<noteq> [] \<longrightarrow> msg_Channel m \<in> set (opt_Channels c)) \<and>
     (opt_Source c = '''' \<or> opt_Source c = ''realtime'' \<and> msg_Realtime m \<or>
      opt_Source c = ''playback'' \<and> \<not> msg_Realtime m)"

lemma Accept_sound: "Accept (Some c) m = None \<Longrightarrow> filter_matches c m"
proof -
  assume acc: "Accept (Some c) m = None"
  define ix where "ix = sort_Search (length (opt_Channels c)) (\<lambda>i. opt_Channels c ! i \<le> msg_Channel m)"
  have "msg_Channel m \<in> set (opt_Channels c)" if "opt_Channels c \<noteq> []"
  proof -
    from acc that have "ix < length (opt_Channels c)" "opt_Channels c ! ix = msg_Channel m"
      by (auto simp: Accept_def Let_def ix_def split: if_splits)
    then show ?thesis using nth_mem by metis
  qed
  with acc show ?thesis
    by (auto simp: Accept_def filter_matches_def Let_def split: if_splits)
qed

text \<open>
  C34. A notifier only lets messages through that satisfy its configuration (instance, channel
  and source), whatever the order of the configured channels; when these are in descending
  order, it lets through exactly these messages.
\<close>

theorem Accept_iff:
  "(Accept (Some c) m = None \<longrightarrow> filter_matches c m) \<and>
   (sorted_wrt (\<ge>) (opt_Channels c) \<longrightarrow> Accept (Some c) m = None \<longleftrightarrow> filter_matches c m)"
proof (intro conjI impI)
  assume sorted: "sorted_wrt (\<ge>) (opt_Channels c)"
  show "Accept (Some c) m = None \<longleftrightarrow> filter_matches c m"
  proof
    assume ok: "filter_matches c m"
    let ?ix = "sort_Search (length (opt_Channels c)) (\<lambda>i. opt_Channels c ! i \<le> msg_Channel m)"
    have "opt_Channels c \<noteq> [] \<Longrightarrow> ?ix < length (opt_Channels c) \<and> opt_Channels c ! ?ix = msg_Channel m"
      using descending.search_member [OF sorted, of "msg_Channel m"] ok
      by (simp add: filter_matches_def)
    with ok show "Accept (Some c) m = None"
      by (auto simp: Accept_def filter_matches_def Let_def)
  qed (rule Accept_sound)
qed (rule Accept_sound)

theorem Accept_iff_witness:
  "Accept (Some \<lparr>opt_Source = [], opt_Instance = 0xffffffff, opt_Channels = [3, 2]\<rparr>)
     (new_Message\<lparr>msg_Channel := 2\<rparr>) = None"
  by (rule Accept_iff [THEN conjunct2, THEN mp, THEN iffD2])
    (simp_all add: filter_matches_def new_Message_def)

text \<open>
  With the channels in ascending order the search misses members: a notifier configured
  with the channels 1 and 2 refuses the messages of channel 2, though its configuration
  names that channel.
\<close>

theorem Accept_ascending_refuses:
  assumes "a < (b :: Channel)" and "msg_Channel m = b"
    and "opt_Channels c = [a, b]" and "\<not> 0 \<le> sint (opt_Instance c)"
  shows "Accept (Some c) m = Some (Errorf ''channel %d not accepted'')"
proof -
  have "sort_Search 2 (\<lambda>i. [a, b] ! i \<le> b) = 0"
    using assms(1) by (simp add: sort_Search_def search_loop.simps [of _ 0 2] search_loop.simps [of _ 0 "Suc 0"]
        search_loop.simps [of _ 0 0] less_imp_le)
  with assms show ?thesis
    by (auto simp: Accept_def Let_def numeral_2_eq_2)
qed

theorem Accept_ascending_refuses_witness:
  "Accept (Some \<lparr>opt_Source = [], opt_Instance = 0xffffffff, opt_Channels = [1, 2]\<rparr>)
     (new_Message\<lparr>msg_Channel := 2\<rparr>) = Some (Errorf ''channel %d not accepted'')"
  by (rule Accept_ascending_refuses [of 1 2]) (simp_all add: new_Message_def)

section \<open>Properties of the datagram\<close>

text \<open>
  The reader that stops at the first error. The decoder of the sources drops the errors of the
  fixed-size fields, but a failed read leaves the source empty, so that the next string fails:
  both agree on the messages they return without an error.
\<close>

definition read_message :: "Message rd" where
  "read_message =
     rd_bind readString (\<lambda>origin. rd_bind read_u32 (\<lambda>sq. rd_bind read_u32 (\<lambda>inst.
     rd_bind read_u8 (\<lambda>chan. rd_bind read_bool (\<lambda>rt. rd_bind read_u32 (\<lambda>cnt.
     rd_bind read_u64 (\<lambda>ela. rd_bind read_u64 (\<lambda>gen. rd_bind read_u64 (\<lambda>acq.
     rd_bind readString (\<lambda>ref. rd_bind readString (\<lambda>upi.
     rd_return \<lparr>msg_Origin = origin, msg_Sequence = sq, msg_Instance = inst, msg_Channel = chan,
       msg_Realtime = rt, msg_Count = cnt, msg_Elapsed = ela, msg_Generated = gen,
       msg_Acquired = acq, msg_Reference = ref, msg_UPI = upi\<rparr>)))))))))))"

definition drains :: "'a rd \<Rightarrow> bool" where
  "drains m \<longleftrightarrow> (\<forall>r e r'. m r = (Inl e, r') \<longrightarrow> rbuf r' = [])"

text \<open>
  A decoder that reports errors beside the partial result, and a strict reader: same results on
  success, and the decoder fails on an empty source.
\<close>

definition same_success :: "(reader \<Rightarrow> ('a \<times> go_error option) \<times> reader) \<Rightarrow> 'a rd \<Rightarrow> bool" where
  "same_success k f \<longleftrightarrow> (\<forall>r v r'. k r = ((v, None), r') \<longleftrightarrow> f r = (Inr v, r'))"

definition agrees :: "(reader \<Rightarrow> ('a \<times> go_error option) \<times> reader) \<Rightarrow> 'a rd \<Rightarrow> bool" where
  "agrees k f \<longleftrightarrow> same_success k f \<and> (\<forall>r. rbuf r = [] \<longrightarrow> snd (fst (k r)) \<noteq> None)"

lemma same_success_return: "v = w \<Longrightarrow> same_success (\<lambda>r. ((v, None), r)) (rd_return w)"
  by (auto simp: same_success_def)

lemma agrees_same: "agrees k f \<Longrightarrow> same_success k f"
  by (simp add: agrees_def)

lemma drains_read_be [simp]: "drains (read_be n)"
  by (auto simp: drains_def read_be_def rd_bind_Inl ReadFull_error)

lemma drains_read_bool [simp]: "drains read_bool"
  by (auto simp: drains_def read_bool_def rd_bind_Inl ReadFull_error)

lemma agrees_dropped:
  assumes k: "\<And>x. agrees (k x) (f x)" and m: "drains m" "advances m"
  shows "agrees (\<lambda>r. case read_into old m r of (x, r') \<Rightarrow> k x r') (rd_bind m f)"
  unfolding agrees_def same_success_def
proof (intro conjI allI impI)
  fix r v r'
  obtain y r1 where mr: "m r = (y, r1)" by fastforce
  show "(case read_into old m r of (x, r') \<Rightarrow> k x r') = ((v, None), r') \<longleftrightarrow> rd_bind m f r = (Inr v, r')"
  proof (cases y)
    case (Inl e)
    with mr m have "rbuf r1 = []" by (auto simp: drains_def)
    with k have "snd (fst (k old r1)) \<noteq> None" by (auto simp: agrees_def)
    with Inl mr show ?thesis by (auto simp: read_into_def)
  next
    case (Inr x)
    with mr k [of x] show ?thesis by (simp add: read_into_def agrees_def same_success_def)
  qed
next
  fix r :: reader
  assume "rbuf r = []"
  obtain y r1 where mr: "m r = (y, r1)" by fastforce
  with m \<open>rbuf r = []\<close> have "rbuf r1 = []" using advances_length [of m r y r1] by simp
  with k mr show "snd (fst (case read_into old m r of (x, r') \<Rightarrow> k x r')) \<noteq> None"
    by (auto simp: read_into_def agrees_def split: sum.splits)
qed

lemma readString_empty: "rbuf r = [] \<Longrightarrow> \<exists>e. readString r = (Inl e, r)"
  by (auto simp: readString_def read_be_def rd_bind_def ReadFull_def)

lemma agrees_checked:
  assumes k: "\<And>x. same_success (k x) (f x)"
  shows "agrees (\<lambda>r. case readString r of (Inl e, r) \<Rightarrow> ((d, Some e), r) | (Inr x, r) \<Rightarrow> k x r)
           (rd_bind readString f)"
  unfolding agrees_def same_success_def
proof (intro conjI allI impI)
  fix r v r'
  show "(case readString r of (Inl e, r) \<Rightarrow> ((d, Some e), r) | (Inr x, r) \<Rightarrow> k x r) = ((v, None), r') \<longleftrightarrow>
    rd_bind readString f r = (Inr v, r')"
    using k by (auto simp: rd_bind_def same_success_def split: outcome_splits)
next
  fix r :: reader
  assume "rbuf r = []"
  from readString_empty [OF this] show
    "snd (fst (case readString r of (Inl e, r) \<Rightarrow> ((d, Some e), r) | (Inr x, r) \<Rightarrow> k x r)) \<noteq> None" by auto
qed

lemma DecodeMessage_agrees: "agrees DecodeMessage read_message"
  unfolding DecodeMessage_def [abs_def] read_message_def Let_def
  by (rule agrees_checked agrees_dropped same_success_return agrees_same drains_read_be
      drains_read_bool read_rules | simp)+

lemma stable_readString [read_rules]: "stable readString"
  unfolding readString_def by (intro read_rules)

lemma stable_read_message [read_rules]: "stable read_message"
  unfolding read_message_def by (intro read_rules)

definition fits_string :: "string \<Rightarrow> bool" where
  "fits_string s \<longleftrightarrow> length s < 2 ^ 16"

definition fits_message :: "Message \<Rightarrow> bool" where
  "fits_message m \<longleftrightarrow> fits_string (msg_Origin m) \<and> fits_string (msg_Reference m) \<and> fits_string (msg_UPI m)"

interpretation go_string: codec fits_string put_string readString
proof
  fix x rest e
  assume "fits_string x"
  then have "unat (of_nat (length x) :: uint16) = length x"
    by (simp add: fits_string_def unat_of_nat_small)
  then show "readString (source (put_string x @ rest) e) = (Inr x, source rest e)"
    by (simp add: readString_def put_string_def wire_simps)
qed

interpretation notification: codec fits_message encode_message read_message
proof
  fix m rest e
  assume "fits_message m"
  then show "read_message (source (encode_message m @ rest) e) = (Inr m, source rest e)"
    by (simp add: read_message_def encode_message_def fits_message_def go_string.get_put wire_simps
        del: One_nat_def)
qed

lemma DecodeMessage_success: "DecodeMessage r = ((m, None), r') \<longleftrightarrow> read_message r = (Inr m, r')"
  using DecodeMessage_agrees by (simp add: agrees_def same_success_def)

text \<open>
  C8. What the external notifier puts on the wire is what the receivers decode: for every
  message its filter lets through whose strings fit their 16-bit lengths, exactly one datagram
  is sent, and the decoder returns the message from it, without an error and without reading
  beyond it.
\<close>

theorem notification_roundtrip:
  assumes "Accept opts m = None" and "fits_message m"
  shows "\<exists>d. notifier_Notify opts (\<lambda>d s. (None, s @ [d])) m sent = (None, sent @ [d]) \<and>
             DecodeMessage (source (d @ rest) e) = ((m, None), source rest e)"
  using assms by (simp add: notifier_Notify_def DecodeMessage_success notification.get_put)

definition sample_message :: Message where
  "sample_message = new_Message\<lparr>msg_Origin := ''36'', msg_Sequence := 258, msg_Instance := 255,
     msg_Channel := 2, msg_Realtime := True, msg_Count := 5, msg_Reference := ''a.dat'', msg_UPI := ''X''\<rparr>"

theorem notification_roundtrip_witness:
  "\<exists>d. notifier_Notify None (\<lambda>d s. (None, s @ [d])) sample_message [] = (None, [] @ [d]) \<and>
       DecodeMessage (source (d @ [1]) EOF) = ((sample_message, None), source [1] EOF)"
  by (rule notification_roundtrip) (simp_all add: Accept_def fits_message_def fits_string_def
      sample_message_def new_Message_def)

text \<open>
  C35. A truncated datagram is always reported: although the decoder drops the errors of the
  fixed-size fields, it returns an error on every proper prefix of an encoded message, so that no
  receiver takes a message with missing fields for a complete one.
\<close>

theorem truncated_message_error:
  assumes "fits_message m" and "encode_message m = p @ s" and "s \<noteq> []"
  shows "snd (fst (DecodeMessage (source p e))) \<noteq> None"
proof
  assume ok: "snd (fst (DecodeMessage (source p e))) = None"
  obtain v err r' where d: "DecodeMessage (source p e) = ((v, err), r')" by (metis surj_pair)
  with ok have "read_message (source p e) = (Inr v, r')" by (simp add: DecodeMessage_success)
  with notification.prefix_fails [OF stable_read_message assms, of e] show False by auto
qed

theorem truncated_message_error_witness:
  "snd (fst (DecodeMessage (source (take 20 (encode_message sample_message)) EOF))) \<noteq> None"
proof (rule truncated_message_error)
  show "encode_message sample_message =
     take 20 (encode_message sample_message) @ drop 20 (encode_message sample_message)" by simp
  show "drop 20 (encode_message sample_message) \<noteq> []"
    by (simp add: encode_message_def put_string_def)
qed (simp add: fits_message_def fits_string_def sample_message_def new_Message_def)

text \<open>
  The user information of a notification never is empty for tables and images: a
  packet received in real time is described by its type, a playback packet by the user
  information of its header without the zero bytes around it, or by its type when that is empty.
\<close>

theorem extractUserInfo_cases:
  "extractUserInfo p =
     (case hr_kind p of
        OtherPacket \<Rightarrow> []
      | Table h \<Rightarrow>
          (case h of
             SDHv2 s \<Rightarrow> if \<not> hr_IsRealtime p \<and> (\<exists>b\<in>set (sd_Info s). b \<noteq> 0)
                       then string_of_bytes (trim_zeros (sd_Info s)) else ''SCIENCE''
           | _ \<Rightarrow> ''SCIENCE'')
      | Image h \<Rightarrow>
          (case h of
             IDHv2 v \<Rightarrow> if \<not> hr_IsRealtime p \<and> (\<exists>b\<in>set (id_Info v). b \<noteq> 0)
                       then string_of_bytes (trim_zeros (id_Info v)) else ''IMAGE''
           | IDHv1 info \<Rightarrow> if \<not> hr_IsRealtime p \<and> (\<exists>b\<in>set info. b \<noteq> 0)
                       then string_of_bytes (trim_zeros info) else ''IMAGE''
           | IDHother \<Rightarrow> ''IMAGE''))"
  by (cases "hr_kind p") (auto simp: extractUserInfo_def Let_def trim_zeros_Nil split: SDH.splits IDH.splits)

end
