(* ===== verification/Go_Chan.thy ===== *)
theory Go_Chan
  imports Hadock_Prelude "HOL-Library.Sublist" "HOL-Library.Multiset"
begin

text \<open>
  Channels written with a non-blocking send (\<^verbatim>\<open>select { case q <- x: ... default: ... }\<close>) and
  read by one receiver. A value goes to the waiting receiver or into the buffer, or it is
  dropped. \<open>ch_out\<close> records the values received so far. The interface \<open>lossy_channel\<close> states what
  the senders rely on: accepted values arrive once and in the order they were accepted.
\<close>

record 'a gochan =
  ch_cap :: nat
  ch_buf :: "'a list"
  ch_waiting :: bool
  ch_out :: "'a list"

definition make_chan :: "nat \<Rightarrow> 'a gochan" where
  "make_chan n = \<lparr>ch_cap = n, ch_buf = [], ch_waiting = False, ch_out = []\<rparr>"

definition try_send :: "'a \<Rightarrow> 'a gochan \<Rightarrow> bool \<times> 'a gochan" where
  "try_send x c =
     (if ch_waiting c then (True, c\<lparr>ch_waiting := False, ch_out := ch_out c @ [x]\<rparr>)
      else if length (ch_buf c) < ch_cap c then (True, c\<lparr>ch_buf := ch_buf c @ [x]\<rparr>)
      else (False, c))"

text \<open>The receiver takes the oldest value, or waits.\<close>

definition chan_recv :: "'a gochan \<Rightarrow> 'a gochan" where
  "chan_recv c =
     (case ch_buf c of
        [] \<Rightarrow> c\<lparr>ch_waiting := True\<rparr>
      | x # xs \<Rightarrow> c\<lparr>ch_buf := xs, ch_out := ch_out c @ [x]\<rparr>)"

definition accepted :: "'a gochan \<Rightarrow> 'a list" where
  "accepted c = ch_out c @ ch_buf c"

definition chan_inv :: "'a gochan \<Rightarrow> bool" where
  "chan_inv c \<longleftrightarrow> length (ch_buf c) \<le> ch_cap c \<and> (ch_waiting c \<longrightarrow> ch_buf c = [])"

text \<open>A schedule interleaves sends (\<open>Some x\<close>) and receives (\<open>None\<close>); the flags tell which sends succeeded.\<close>

fun run_schedule :: "('a \<Rightarrow> 'c \<Rightarrow> bool \<times> 'c) \<Rightarrow> ('c \<Rightarrow> 'c) \<Rightarrow> 'a option list \<Rightarrow> 'c \<Rightarrow> bool list \<times> 'c" where
  "run_schedule send recv [] c = ([], c)"
| "run_schedule send recv (None # es) c = run_schedule send recv es (recv c)"
| "run_schedule send recv (Some x # es) c =
     (let (ok, c) = send x c; (oks, c) = run_schedule send recv es c in (ok # oks, c))"

definition offered :: "'a option list \<Rightarrow> 'a list" where
  "offered es = map the (filter (\<lambda>e. e \<noteq> None) es)"

locale lossy_channel =
  fixes send :: "'a \<Rightarrow> 'c \<Rightarrow> bool \<times> 'c"
    and recv :: "'c \<Rightarrow> 'c"
    and contents :: "'c \<Rightarrow> 'a list"
    and inv :: "'c \<Rightarrow> bool"
  assumes send_ok: "inv c \<Longrightarrow> send x c = (True, c') \<Longrightarrow> contents c' = contents c @ [x]"
    and send_full: "send x c = (False, c') \<Longrightarrow> c' = c"
    and recv_contents: "inv c \<Longrightarrow> contents (recv c) = contents c"
    and send_inv: "inv c \<Longrightarrow> inv (snd (send x c))"
    and recv_inv: "inv c \<Longrightarrow> inv (recv c)"
begin

text \<open>Whatever the interleaving, the channel holds and delivers the accepted values in order.\<close>

lemma schedule_contents:
  "inv c \<Longrightarrow> run_schedule send recv es c = (oks, c') \<Longrightarrow>
     inv c' \<and> length oks = length (offered es) \<and>
     contents c' = contents c @ map fst (filter snd (zip (offered es) oks))"
proof (induction es arbitrary: c oks)
  case Nil
  then show ?case by (simp add: offered_def)
next
  case (Cons e es)
  show ?case
  proof (cases e)
    case None
    with Cons.prems have "run_schedule send recv es (recv c) = (oks, c')" by simp
    from Cons.IH [OF recv_inv [OF Cons.prems(1)] this] None Cons.prems(1) show ?thesis
      by (simp add: offered_def recv_contents)
  next
    case (Some x)
    obtain ok c1 where s: "send x c = (ok, c1)" by fastforce
    with Some Cons.prems(2) obtain oks1 where r: "run_schedule send recv es c1 = (oks1, c')"
      and oks: "oks = ok # oks1" by (auto split: prod.splits)
    from send_inv [OF Cons.prems(1), of x] s have "inv c1" by simp
    moreover have "contents c1 = contents c @ (if ok then [x] else [])"
      using s send_ok [OF Cons.prems(1), of x c1] send_full [of x c c1] by (cases ok) simp_all
    ultimately show ?thesis using Cons.IH [OF _ r] Some oks by (simp add: offered_def)
  qed
qed

lemma schedule_subseq:
  assumes "inv c" and "contents c = []" and "run_schedule send recv es c = (oks, c')"
  shows "subseq (contents c') (offered es)"
proof -
  have "subseq (map fst (filter snd (zip xs ys))) xs" for xs :: "'a list" and ys :: "bool list"
    by (induction xs ys rule: list_induct2') auto
  with schedule_contents [OF assms(1,3)] assms(2) show ?thesis by simp
qed

lemma schedule_lossless:
  assumes "inv c" and "run_schedule send recv es c = (oks, c')" and "list_all id oks"
  shows "contents c' = contents c @ offered es"
proof -
  have "length xs = length ys \<Longrightarrow> list_all id ys \<Longrightarrow> map fst (filter snd (zip xs ys)) = xs"
    for xs :: "'a list" and ys :: "bool list"
    by (induction xs ys rule: list_induct2') auto
  with schedule_contents [OF assms(1,2)] assms(3) show ?thesis by simp
qed

end

interpretation nonblocking: lossy_channel try_send chan_recv accepted chan_inv
  by unfold_locales
    (auto simp: try_send_def chan_recv_def accepted_def chan_inv_def split: if_splits list.splits)

lemma make_chan_inv [simp]: "chan_inv (make_chan n)" "accepted (make_chan n) = []"
  by (simp_all add: make_chan_def chan_inv_def accepted_def)

lemma try_send_cap [simp]: "ch_cap (snd (try_send x c)) = ch_cap c"
  by (simp add: try_send_def)

lemma chan_recv_cap [simp]: "ch_cap (chan_recv c) = ch_cap c"
  by (simp add: chan_recv_def split: list.splits)

text \<open>A send fails only when the buffer is full and nobody waits.\<close>

lemma try_send_fails:
  "chan_inv c \<Longrightarrow> fst (try_send x c) = False \<longleftrightarrow> length (ch_buf c) = ch_cap c \<and> \<not> ch_waiting c"
  by (auto simp: try_send_def chan_inv_def)

section \<open>Several senders\<close>

text \<open>What a receiver sees of senders that wait for it: one of the interleavings of their values.\<close>

inductive interleaves :: "'a list list \<Rightarrow> 'a list \<Rightarrow> bool" where
  finished: "(\<forall>xs\<in>set xss. xs = []) \<Longrightarrow> interleaves xss []"
| sends: "i < length xss \<Longrightarrow> xss ! i = x # xs \<Longrightarrow> interleaves (xss[i := xs]) ys \<Longrightarrow> interleaves xss (x # ys)"

lemma interleaves_mset: "interleaves xss ys \<Longrightarrow> mset ys = (\<Sum>xs\<leftarrow>xss. mset xs)"
proof (induction rule: interleaves.induct)
  case (finished xss)
  then show ?case by (induction xss) auto
next
  case (sends i xss x xs ys)
  have "(\<Sum>xs\<leftarrow>xss. mset xs) = add_mset x (\<Sum>xs\<leftarrow>xss[i := xs]. mset xs)"
    using sends(1,2) by (induction xss arbitrary: i) (auto simp: nth_Cons split: nat.splits)
  with sends.IH show ?case by simp
qed

lemma interleaves_subseq: "interleaves xss ys \<Longrightarrow> xs \<in> set xss \<Longrightarrow> subseq xs ys"
proof (induction arbitrary: xs rule: interleaves.induct)
  case (sends i xss x zs ys)
  show ?case
  proof (cases "xs = xss ! i")
    case True
    moreover have "zs \<in> set (xss[i := zs])" using sends(1) by (simp add: set_update_memI)
    ultimately show ?thesis using sends(2) sends.IH by simp
  next
    case False
    then have "xs \<in> set (xss[i := zs])" using sends.prems
      by (metis in_set_conv_nth length_list_update nth_list_update_neq)
    then show ?thesis using sends.IH by (simp add: list_emb_Cons)
  qed
qed auto

lemma interleaves_map: "interleaves xss ys \<Longrightarrow> interleaves (map (map f) xss) (map f ys)"
proof (induction rule: interleaves.induct)
  case (sends i xss x xs ys)
  then have "interleaves ((map (map f) xss)[i := map f xs]) (map f ys)" by (simp add: map_update)
  with sends(1,2) show ?case by (auto intro: interleaves.sends)
next
  case (finished xss)
  then have "\<forall>xs\<in>set (map (map f) xss). xs = []" by simp
  from interleaves.finished [OF this] show ?case by simp
qed

end
