(* ===== verification/Pool.thy ===== *)
theory Pool
  imports Notifier Go_Chan
begin

text \<open>
  The notification pool (\<^verbatim>\<open>NewPool\<close>, \<^verbatim>\<open>Pool.Notify\<close> and \<^verbatim>\<open>Pool.notify\<close> of
  \<^verbatim>\<open>src/notifier.go\<close>): a bounded queue filled by the listener, a cache of the packets received
  since the last tick, grouped by mode, origin and instance, and one message per group
  at every tick. The goroutine is a step relation: the order in which Go iterates the cache is
  unspecified, so a tick may enumerate the keys in any order.
\<close>

record Item =
  it_Instance :: uint32
  it_packet :: HRPacket

datatype key = Key (k_Realtime: bool) (k_Origin: string) (k_Instance: uint32)

text \<open>
  \<open>pool_batches\<close> is the trace of the groups handed to the goroutines that build and send the
  messages, in the order of the ticks.
\<close>

record Pool =
  pool_limit :: int
  pool_queue :: "Item gochan option"
  pool_cache :: "key \<rightharpoonup> HRPacket list"
  pool_batches :: "(key \<times> HRPacket list) list"

definition NewPool :: "int \<Rightarrow> int \<Rightarrow> Pool" where
  "NewPool a e = \<lparr>pool_limit = a, pool_queue = (if 0 < e then Some (make_chan 1000) else None),
     pool_cache = Map.empty, pool_batches = []\<rparr>"

definition too_old :: "gotime \<Rightarrow> Pool \<Rightarrow> gotime \<Rightarrow> bool" where
  "too_old now p t \<longleftrightarrow> 0 < pool_limit p \<and> pool_limit p < time_Sub now t"

definition Pool_Notify :: "gotime \<Rightarrow> Item \<Rightarrow> Pool \<Rightarrow> Pool" where
  "Pool_Notify now i p =
     (case pool_queue p of
        None \<Rightarrow> p
      | Some q \<Rightarrow>
          if hr_kind (it_packet i) = OtherPacket then p
          else if too_old now p (vh_Timestamp (hr_VMUHeader (it_packet i))) then p
          else p\<lparr>pool_queue := Some (snd (try_send i q))\<rparr>)"

definition item_key :: "Item \<Rightarrow> key" where
  "item_key i = Key (hr_IsRealtime (it_packet i)) (hr_Origin (it_packet i)) (it_Instance i)"

definition cached :: "(key \<rightharpoonup> HRPacket list) \<Rightarrow> key \<Rightarrow> HRPacket list" where
  "cached c k = (case c k of None \<Rightarrow> [] | Some ps \<Rightarrow> ps)"

text \<open>The receiving branch of the loop, for the item at the head of the queue.\<close>

definition pool_receive :: "Item \<Rightarrow> Pool \<Rightarrow> Pool" where
  "pool_receive i p = p\<lparr>pool_cache := (pool_cache p)(item_key i \<mapsto> cached (pool_cache p) (item_key i) @ [it_packet i])\<rparr>"

text \<open>The ticking branch, one key after the other.\<close>

definition emit_key :: "key \<Rightarrow> Pool \<Rightarrow> Pool" where
  "emit_key k p =
     (if cached (pool_cache p) k = [] then p
      else p\<lparr>pool_batches := pool_batches p @ [(k, cached (pool_cache p) k)],
             pool_cache := (pool_cache p)(k := None)\<rparr>)"

definition pool_tick :: "key list \<Rightarrow> Pool \<Rightarrow> Pool" where
  "pool_tick ks p = fold emit_key ks p"

text \<open>The message of a group; conversions to fixed-size integers wrap around.\<close>

definition build_message :: "key \<Rightarrow> HRPacket list \<Rightarrow> Message" where
  "build_message k ps0 =
     (let ps = sort_slice hr_Sequence ps0;
          first = hd ps;
          lst = last ps;
          g = (case hr_Generated first of Some t \<Rightarrow> t | None \<Rightarrow> hr_Timestamp first)
      in \<lparr>msg_Origin = k_Origin k,
          msg_Sequence = hr_Sequence first,
          msg_Instance = k_Instance k,
          msg_Channel = hr_Stream first,
          msg_Realtime = k_Realtime k,
          msg_Count = of_nat (length ps),
          msg_Elapsed = of_int (time_Sub (hr_Timestamp lst) (hr_Timestamp first)),
          msg_Generated = of_int (Unix g),
          msg_Acquired = of_int (Unix (hr_Timestamp first)),
          msg_Reference = hr_Filename first,
          msg_UPI = extractUserInfo first\<rparr>)"

definition pool_messages :: "Pool \<Rightarrow> Message list" where
  "pool_messages p = map (\<lambda>(k, ps). build_message k ps) (pool_batches p)"

section \<open>Runs of the pool\<close>

text \<open>
  One step: the listener offers an item at some instant, the loop receives an item, or the
  ticker fires and the loop goes through the keys of the cache in some order.
\<close>

inductive pool_step :: "Pool \<Rightarrow> Pool \<Rightarrow> bool" where
  offer: "pool_step p (Pool_Notify now i p)"
| receive: "pool_queue p = Some q \<Longrightarrow> ch_buf q = i # rest \<Longrightarrow>
    pool_step p (pool_receive i (p\<lparr>pool_queue := Some (chan_recv q)\<rparr>))"
| tick: "distinct ks \<Longrightarrow> set ks = dom (pool_cache p) \<Longrightarrow> pool_step p (pool_tick ks p)"

inductive_cases pool_stepE: "pool_step p p'"

inductive pool_reachable :: "int \<Rightarrow> int \<Rightarrow> Pool \<Rightarrow> bool" for a e where
  start: "pool_reachable a e (NewPool a e)"
| step: "pool_reachable a e p \<Longrightarrow> pool_step p p' \<Longrightarrow> pool_reachable a e p'"

section \<open>Invariant\<close>

definition queue_ok :: "Item gochan \<Rightarrow> bool" where
  "queue_ok q \<longleftrightarrow> chan_inv q \<and> ch_cap q = 1000 \<and> \<not> ch_waiting q \<and>
     (\<forall>i\<in>set (accepted q). hr_kind (it_packet i) \<noteq> OtherPacket)"

definition received :: "Pool \<Rightarrow> key \<Rightarrow> HRPacket list" where
  "received p k =
     (case pool_queue p of None \<Rightarrow> [] | Some q \<Rightarrow> map it_packet (filter (\<lambda>i. item_key i = k) (ch_out q)))"

definition reported :: "Pool \<Rightarrow> key \<Rightarrow> HRPacket list" where
  "reported p k = concat (map snd (filter (\<lambda>b. fst b = k) (pool_batches p)))"

text \<open>Per key, what was received is what was handed out in batches followed by what is cached.\<close>

definition pool_inv :: "Pool \<Rightarrow> bool" where
  "pool_inv p \<longleftrightarrow>
     (\<forall>q. pool_queue p = Some q \<longrightarrow> queue_ok q) \<and>
     (\<forall>k. received p k = reported p k @ cached (pool_cache p) k) \<and>
     (\<forall>b\<in>set (pool_batches p). snd b \<noteq> [])"

lemma pool_inv_queue: "pool_inv p \<Longrightarrow> pool_queue p = Some q \<Longrightarrow> queue_ok q"
  by (simp add: pool_inv_def)

lemma pool_inv_received: "pool_inv p \<Longrightarrow> received p k = reported p k @ cached (pool_cache p) k"
  by (simp add: pool_inv_def)

lemma pool_inv_NewPool: "pool_inv (NewPool a e)"
  by (auto simp: pool_inv_def NewPool_def queue_ok_def received_def reported_def cached_def
      make_chan_def chan_inv_def accepted_def)

lemma try_send_queue_ok:
  "queue_ok q \<Longrightarrow> hr_kind (it_packet i) \<noteq> OtherPacket \<Longrightarrow>
     queue_ok (snd (try_send i q)) \<and> ch_out (snd (try_send i q)) = ch_out q"
  by (auto simp: queue_ok_def try_send_def chan_inv_def accepted_def)

lemma pool_inv_offer:
  assumes "pool_inv p"
  shows "pool_inv (Pool_Notify now i p)"
proof (cases "pool_queue p")
  case (Some q)
  with assms have "queue_ok q" by (rule pool_inv_queue)
  with assms Some show ?thesis
    using try_send_queue_ok [of q i]
    by (auto simp: Pool_Notify_def pool_inv_def received_def reported_def)
qed (use assms in \<open>simp add: Pool_Notify_def\<close>)

lemma pool_inv_receive:
  assumes "pool_inv p" and q: "pool_queue p = Some q" and i: "ch_buf q = i # rest"
  shows "pool_inv (pool_receive i (p\<lparr>pool_queue := Some (chan_recv q)\<rparr>))" (is "pool_inv ?p")
  unfolding pool_inv_def
proof (intro conjI allI)
  from assms(1) q have ok: "queue_ok q" by (rule pool_inv_queue)
  have recv: "chan_recv q = q\<lparr>ch_buf := rest, ch_out := ch_out q @ [i]\<rparr>" by (simp add: chan_recv_def i)
  show "pool_queue ?p = Some q' \<longrightarrow> queue_ok q'" for q'
    using ok i by (auto simp: pool_receive_def recv queue_ok_def chan_inv_def accepted_def)
  show "\<forall>b\<in>set (pool_batches ?p). snd b \<noteq> []"
    using assms(1) by (simp add: pool_receive_def pool_inv_def)
  show "received ?p k = reported ?p k @ cached (pool_cache ?p) k" for k
    using pool_inv_received [OF assms(1), of k] q
    by (auto simp: pool_receive_def received_def reported_def cached_def recv)
qed

lemma pool_inv_emit:
  assumes "pool_inv p"
  shows "pool_inv (emit_key k p)"
  using assms by (auto simp: emit_key_def pool_inv_def received_def reported_def cached_def)

lemma pool_inv_tick: "pool_inv p \<Longrightarrow> pool_inv (pool_tick ks p)"
  unfolding pool_tick_def by (induction ks arbitrary: p) (simp_all add: pool_inv_emit)

lemma pool_inv_step: "pool_step p p' \<Longrightarrow> pool_inv p \<Longrightarrow> pool_inv p'"
  by (erule pool_stepE) (simp_all add: pool_inv_offer pool_inv_receive pool_inv_tick)

lemma pool_reachable_inv: "pool_reachable a e p \<Longrightarrow> pool_inv p"
  by (induction rule: pool_reachable.induct) (simp_all add: pool_inv_NewPool pool_inv_step)

text \<open>
  C9. The pool neither loses nor repeats what it took from its queue: in every reachable
  state, for every key (mode, origin, instance), the packets received under that key are, in
  order, those of the batches already reported under it followed by the cached ones. The queue
  never holds more than 1000 items and only tables and images.
\<close>

theorem pool_conservation:
  assumes "pool_reachable a e p" and "pool_queue p = Some q"
  shows "map it_packet (filter (\<lambda>i. item_key i = k) (ch_out q)) =
           concat (map snd (filter (\<lambda>b. fst b = k) (pool_batches p))) @ cached (pool_cache p) k \<and>
         length (ch_buf q) \<le> 1000 \<and>
         (\<forall>i\<in>set (ch_buf q). hr_kind (it_packet i) \<noteq> OtherPacket)"
proof -
  from assms(1) have inv: "pool_inv p" by (rule pool_reachable_inv)
  have "queue_ok q" using inv assms(2) by (rule pool_inv_queue)
  with pool_inv_received [OF inv, of k] assms(2) show ?thesis
    by (auto simp: received_def reported_def queue_ok_def chan_inv_def accepted_def)
qed

definition sample_item :: Item where
  "sample_item = \<lparr>it_Instance = 255, it_packet = sample_table\<rparr>"

lemma Pool_Notify_cache [simp]: "pool_cache (Pool_Notify now i p) = pool_cache p"
  by (simp add: Pool_Notify_def split: option.split)

definition sample_queue :: "Item gochan" where
  "sample_queue = snd (try_send sample_item (make_chan 1000))"

definition sample_run :: Pool where
  "sample_run = pool_tick [item_key sample_item] (pool_receive sample_item
     ((Pool_Notify zero_time sample_item (NewPool 0 1))\<lparr>pool_queue := Some (chan_recv sample_queue)\<rparr>))"

lemma Pool_Notify_batches [simp]: "pool_batches (Pool_Notify now i p) = pool_batches p"
  by (simp add: Pool_Notify_def split: option.split)

lemma sample_run_batches: "pool_batches sample_run = [(item_key sample_item, [sample_table])]"
  by (simp add: sample_run_def pool_tick_def emit_key_def cached_def pool_receive_def)
    (simp add: NewPool_def sample_item_def)

lemma sample_pool: "pool_reachable 0 1 sample_run"
proof -
  let ?p1 = "Pool_Notify zero_time sample_item (NewPool 0 1)"
  have q: "pool_queue ?p1 = Some sample_queue"
    by (simp add: Pool_Notify_def NewPool_def sample_item_def sample_table_def too_old_def sample_queue_def)
  have b: "ch_buf sample_queue = [sample_item]"
    by (simp add: try_send_def make_chan_def sample_queue_def)
  have "pool_reachable 0 1 ?p1" by (rule pool_reachable.step [OF pool_reachable.start pool_step.offer])
  then have "pool_reachable 0 1 (pool_receive sample_item
     (?p1\<lparr>pool_queue := Some (chan_recv sample_queue)\<rparr>))"
    using pool_step.receive [OF q b] by (rule pool_reachable.step)
  then show ?thesis unfolding sample_run_def
    by (rule pool_reachable.step) (rule pool_step.tick, simp_all only: pool_receive_def, simp_all add: NewPool_def)
qed

theorem pool_conservation_witness:
  "length (ch_buf (chan_recv sample_queue)) \<le> 1000"
  by (rule pool_conservation [OF sample_pool, THEN conjunct2, THEN conjunct1])
    (simp add: sample_run_def pool_tick_def emit_key_def pool_receive_def)

section \<open>Messages\<close>

lemma batch_received:
  assumes "pool_reachable a e p" and "(k, ps) \<in> set (pool_batches p)"
  shows "ps \<noteq> [] \<and> (\<forall>x\<in>set ps. \<exists>i. item_key i = k \<and> it_packet i = x)"
proof -
  from assms(1) have inv: "pool_inv p" by (rule pool_reachable_inv)
  have "set ps \<subseteq> set (reported p k)" using assms(2) by (force simp: reported_def)
  then have "set ps \<subseteq> set (received p k)" by (simp add: pool_inv_received [OF inv] le_supI1)
  then have "\<forall>x\<in>set ps. \<exists>i. item_key i = k \<and> it_packet i = x"
    by (auto simp: received_def split: option.splits)
  with inv assms(2) show ?thesis by (auto simp: pool_inv_def)
qed

lemma hd_sort_slice: "ps \<noteq> [] \<Longrightarrow> hd (sort_slice f ps) \<in> set ps \<and> (\<forall>x\<in>set ps. f (hd (sort_slice f ps)) \<le> f x)"
proof -
  assume "ps \<noteq> []"
  then obtain y ys where y: "sort_slice f ps = y # ys"
    by (metis length_sort_slice length_0_conv neq_Nil_conv)
  then have "set (y # ys) = set ps" by (metis set_sort_slice)
  moreover have "sorted (map f (y # ys))" using sorted_sort_slice [of f ps] y by simp
  ultimately show ?thesis unfolding y by (metis imageI list.sel(1) list.set_intros(1) list.set_map list.simps(9) order_refl set_ConsD sorted_simps(2))
qed

text \<open>
  C10. Every message describes the packets of its batch: there is at least one, all of them have
  the mode, origin and instance of the message, the count is their number (modulo
  \<open>2 ^ 32\<close>), and sequence, channel, acquisition time and reference are those of a packet with
  the lowest sequence counter of the batch.
\<close>

theorem pool_message_correct:
  assumes "pool_reachable a e p" and "m \<in> set (pool_messages p)"
  shows "\<exists>k ps first. (k, ps) \<in> set (pool_batches p) \<and> first \<in> set ps \<and>
     (\<forall>x\<in>set ps. hr_IsRealtime x = msg_Realtime m \<and> hr_Origin x = msg_Origin m \<and> msg_Sequence m \<le> hr_Sequence x) \<and>
     msg_Instance m = k_Instance k \<and>
     unat (msg_Count m) = length ps mod 2 ^ 32 \<and>
     msg_Sequence m = hr_Sequence first \<and> msg_Channel m = hr_Stream first \<and>
     msg_Acquired m = of_int (Unix (hr_Timestamp first)) \<and> msg_Reference m = hr_Filename first"
proof -
  from assms(2) obtain k ps where b: "(k, ps) \<in> set (pool_batches p)" and m: "m = build_message k ps"
    by (auto simp: pool_messages_def)
  have ps: "ps \<noteq> []" and ks: "\<forall>x\<in>set ps. \<exists>i. item_key i = k \<and> it_packet i = x"
    using batch_received [OF assms(1) b] by blast+
  define first where "first = hd (sort_slice hr_Sequence ps)"
  have first: "first \<in> set ps" "\<forall>x\<in>set ps. hr_Sequence first \<le> hr_Sequence x"
    unfolding first_def using hd_sort_slice [OF ps, of hr_Sequence] by blast+
  have "\<forall>x\<in>set ps. hr_IsRealtime x = k_Realtime k \<and> hr_Origin x = k_Origin k"
    using ks by (auto simp: item_key_def)
  moreover have "msg_Realtime m = k_Realtime k" "msg_Origin m = k_Origin k" "msg_Instance m = k_Instance k"
    "msg_Sequence m = hr_Sequence first" "msg_Channel m = hr_Stream first"
    "msg_Acquired m = of_int (Unix (hr_Timestamp first))" "msg_Reference m = hr_Filename first"
    "unat (msg_Count m) = length ps mod 2 ^ 32"
    by (simp_all add: m build_message_def Let_def first_def unat_of_nat)
  ultimately show ?thesis using b first by metis
qed

theorem pool_message_correct_witness:
  "\<exists>k ps first. (k, ps) \<in> set (pool_batches sample_run) \<and> first \<in> set ps \<and>
     (\<forall>x\<in>set ps. hr_IsRealtime x = True \<and> hr_Origin x = ''36'' \<and> 7 \<le> hr_Sequence x) \<and>
     255 = k_Instance k \<and> unat (1 :: uint32) = length ps mod 2 ^ 32 \<and> 7 = hr_Sequence first \<and> 3 = hr_Stream first \<and>
     (1000000 :: uint64) = of_int (Unix (hr_Timestamp first)) \<and> ''36_7.dat'' = hr_Filename first"
proof -
  have "build_message (item_key sample_item) [sample_table] \<in> set (pool_messages sample_run)"
    by (simp add: pool_messages_def sample_run_batches)
  from pool_message_correct [OF sample_pool this] show ?thesis
    by (simp add: build_message_def sort_slice_def item_key_def sample_item_def sample_table_def)
qed

lemma emit_key_cached: "cached (pool_cache (emit_key j p)) k = (if k = j then [] else cached (pool_cache p) k)"
  by (simp add: emit_key_def cached_def)

lemma emit_key_batches:
  "pool_batches (emit_key j p) =
     pool_batches p @ (if cached (pool_cache p) j = [] then [] else [(j, cached (pool_cache p) j)])"
  by (simp add: emit_key_def)

lemma pool_tick_effect:
  "distinct ks \<Longrightarrow>
     cached (pool_cache (pool_tick ks p)) k = (if k \<in> set ks then [] else cached (pool_cache p) k) \<and>
     pool_batches (pool_tick ks p) =
       pool_batches p @ map (\<lambda>k. (k, cached (pool_cache p) k)) (filter (\<lambda>k. cached (pool_cache p) k \<noteq> []) ks)"
proof (induction ks arbitrary: p)
  case (Cons j ks)
  have "map (\<lambda>k. (k, cached (pool_cache (emit_key j p)) k)) (filter (\<lambda>k. cached (pool_cache (emit_key j p)) k \<noteq> []) ks) =
      map (\<lambda>k. (k, cached (pool_cache p) k)) (filter (\<lambda>k. cached (pool_cache p) k \<noteq> []) ks)"
    using Cons.prems by (intro map_cong filter_cong) (auto simp: emit_key_cached)
  with Cons show ?case by (simp add: pool_tick_def emit_key_batches emit_key_cached)
qed (simp add: pool_tick_def)

text \<open>A tick reports every cached group exactly once and leaves an empty cache.\<close>

theorem pool_tick_flushes:
  assumes "distinct ks" and "set ks = dom (pool_cache p)"
  shows "cached (pool_cache (pool_tick ks p)) k = [] \<and>
         pool_batches (pool_tick ks p) =
           pool_batches p @ map (\<lambda>k. (k, cached (pool_cache p) k)) (filter (\<lambda>k. cached (pool_cache p) k \<noteq> []) ks)"
proof -
  have "cached (pool_cache p) k = []" if "k \<notin> set ks"
    using that assms(2) by (simp add: cached_def domIff)
  with pool_tick_effect [OF assms(1), of p k] show ?thesis by auto
qed

theorem pool_tick_flushes_witness:
  "cached (pool_cache (pool_tick [item_key sample_item] (pool_receive sample_item (NewPool 0 1)))) (item_key sample_item) = []"
  by (rule pool_tick_flushes [THEN conjunct1]) (simp_all add: pool_receive_def NewPool_def)

end
