(* ===== verification/Listen.thy ===== *)
theory Listen
  imports Archives Pool
begin

text \<open>
  The listener (\<^verbatim>\<open>src/cmd/hadock/listen.go\<close>): choice of the decoder, conversion of hadock packets
  into VMU packets, the loop that stores, notifies and hands packets to the modules, and the set-up of
  storages, notifiers and modules from the configuration. The VMU decoders and the plugins are
  parameters. Theory Listener has the connections and the listener as a whole.
\<close>

section \<open>Choice of the decoder\<close>

datatype decodeFunc = CompressedPackets | BinaryPackets

definition Decode :: "string \<Rightarrow> decodeFunc outcome" where
  "Decode mode =
     (if mode = ''rfc1952'' \<or> mode = ''gzip'' then Inr CompressedPackets
      else if mode = ''binary'' \<or> mode = '''' then Inr BinaryPackets
      else Inl (Errorf ''unsupported working mode %s''))"

section \<open>Conversion\<close>

record convert =
  cv_total :: int
  cv_image :: int
  cv_science :: int
  cv_skipped :: int
  cv_errors :: int
  cv_size :: int
  cv_queue :: "Item gochan"

definition new_convert :: "nat \<Rightarrow> convert" where
  "new_convert n = \<lparr>cv_total = 0, cv_image = 0, cv_science = 0, cv_skipped = 0, cv_errors = 0, cv_size = 0,
     cv_queue = make_chan n\<rparr>"

text \<open>
  The decoders of the two VMU protocols: \<open>mk v\<close> is the decoder of protocol \<open>v\<close> or its error, in
  which case the table has no entry.
\<close>

type_synonym decoder = "bytes \<Rightarrow> HRPacket outcome"

definition decoder_for :: "panda \<Rightarrow> (int \<Rightarrow> decoder outcome) \<Rightarrow> int \<Rightarrow> decoder option" where
  "decoder_for pa mk v =
     (if v \<in> {VMUProtocol1 pa, VMUProtocol2 pa} then (case mk v of Inl _ \<Rightarrow> None | Inr d \<Rightarrow> Some d) else None)"

definition convert_item :: "Packet \<Rightarrow> HRPacket \<Rightarrow> Item" where
  "convert_item p hr = \<lparr>it_Instance = ucast (pk_Instance p), it_packet = hr\<rparr>"

definition convert_send :: "Packet \<Rightarrow> HRPacket \<Rightarrow> convert \<Rightarrow> convert" where
  "convert_send p hr c =
     (case try_send (convert_item p hr) (cv_queue c) of
        (True, q) \<Rightarrow> c\<lparr>cv_queue := q, cv_total := cv_total c + 1, cv_size := cv_size c + int (length (pk_Payload p))\<rparr>
      | (False, q) \<Rightarrow> c\<lparr>cv_queue := q, cv_skipped := cv_skipped c + 1\<rparr>)"

definition convert_packet :: "panda \<Rightarrow> (int \<Rightarrow> decoder outcome) \<Rightarrow> Packet \<Rightarrow> convert \<Rightarrow> convert" where
  "convert_packet pa mk p c =
     (case decoder_for pa mk (uint (pk_Version p)) of
        None \<Rightarrow> c\<lparr>cv_errors := cv_errors c + 1\<rparr>
      | Some d \<Rightarrow>
          (case d (pk_Payload p) of
             Inl _ \<Rightarrow> c\<lparr>cv_errors := cv_errors c + 1\<rparr>
           | Inr hr \<Rightarrow>
               (case hr_kind hr of
                  Table _ \<Rightarrow> convert_send p hr (c\<lparr>cv_science := cv_science c + 1\<rparr>)
                | Image _ \<Rightarrow> convert_send p hr (c\<lparr>cv_image := cv_image c + 1\<rparr>)
                | OtherPacket \<Rightarrow> c\<lparr>cv_errors := cv_errors c + 1\<rparr>)))"

text \<open>The goroutine that reports the counters every second and resets them.\<close>

definition convert_tick :: "convert \<Rightarrow> convert" where
  "convert_tick c =
     (if 0 < cv_total c \<or> 0 < cv_skipped c \<or> 0 < cv_errors c
      then c\<lparr>cv_size := 0, cv_image := 0, cv_science := 0, cv_skipped := 0, cv_errors := 0, cv_total := 0\<rparr>
      else c)"

text \<open>The packets of the connections interleaved with the receives of the main loop (\<open>None\<close>).\<close>

fun Convert :: "panda \<Rightarrow> (int \<Rightarrow> decoder outcome) \<Rightarrow> Packet option list \<Rightarrow> convert \<Rightarrow> convert" where
  "Convert pa mk [] c = c"
| "Convert pa mk (Some p # es) c = Convert pa mk es (convert_packet pa mk p c)"
| "Convert pa mk (None # es) c = Convert pa mk es (c\<lparr>cv_queue := chan_recv (cv_queue c)\<rparr>)"

section \<open>The main loop\<close>

text \<open>
  The state of the world seen by the storages, the pool and the queue of the modules (a nil
  channel without modules).
\<close>

record 's listen =
  li_world :: 's
  li_pool :: Pool
  li_modules :: "Item gochan option"
  li_logged :: nat

definition listen_item :: "'s Storage \<Rightarrow> gotime \<Rightarrow> Item \<Rightarrow> 's listen \<Rightarrow> 's listen" where
  "listen_item store now i s =
     (let (e, w) = store (ucast (it_Instance i)) (it_packet i) (li_world s) in
      s\<lparr>li_world := w,
        li_logged := li_logged s + (if e = None then 0 else 1),
        li_pool := Pool_Notify now i (li_pool s),
        li_modules := (case li_modules s of None \<Rightarrow> None | Some q \<Rightarrow> Some (snd (try_send i q)))\<rparr>)"

definition runListen_loop :: "'s Storage \<Rightarrow> (gotime \<times> Item) list \<Rightarrow> 's listen \<Rightarrow> 's listen" where
  "runListen_loop store xs s = fold (\<lambda>(now, i). listen_item store now i) xs s"

section \<open>Modules\<close>

datatype 'm constructor =
    ConfigConstructor "string \<Rightarrow> 'm outcome"
  | PlainConstructor "'m outcome"
  | InvalidConstructor

record 'm plugins =
  plugin_Open :: "string \<Rightarrow> nat outcome"
  plugin_Lookup :: "nat \<Rightarrow> 'm constructor outcome"

definition oks :: "'m outcome list \<Rightarrow> 'm list" where
  "oks rs = concat (map (\<lambda>r. case r of Inl _ \<Rightarrow> [] | Inr m \<Rightarrow> [m]) rs)"

record module =
  md_Location :: string
  md_Config :: "string list"

text \<open>A constructor that fails is skipped.\<close>

fun setupModules :: "'m plugins \<Rightarrow> module list \<Rightarrow> 'm list outcome" where
  "setupModules pl [] = Inr []"
| "setupModules pl (m # ms) =
     (case plugin_Open pl (md_Location m) of
        Inl e \<Rightarrow> Inl e
      | Inr h \<Rightarrow>
          (case plugin_Lookup pl h of
             Inl e \<Rightarrow> Inl e
           | Inr InvalidConstructor \<Rightarrow> Inl (Errorf ''invalid module function: %T'')
           | Inr (ConfigConstructor n) \<Rightarrow>
               (case setupModules pl ms of Inl e \<Rightarrow> Inl e | Inr ps \<Rightarrow> Inr (oks (map n (md_Config m)) @ ps))
           | Inr (PlainConstructor r) \<Rightarrow>
               (case setupModules pl ms of Inl e \<Rightarrow> Inl e | Inr ps \<Rightarrow> Inr (oks [r] @ ps))))"

section \<open>Notifiers\<close>

record notifier_config =
  nc_Scheme :: string
  nc_Location :: string
  nc_Source :: string
  nc_Instance :: uint32
  nc_Channels :: "Channel list"

record pool_config =
  pc_Interval :: uint64
  pc_Limit :: uint64
  pc_Notifiers :: "notifier_config list"

datatype notifier_kind = ExternalNotifier string Notifier.Options | DebuggerNotifier string Notifier.Options

definition config_options :: "notifier_config \<Rightarrow> Notifier.Options" where
  "config_options v = \<lparr>opt_Source = nc_Source v, opt_Instance = nc_Instance v, opt_Channels = nc_Channels v\<rparr>"

text \<open>The constructors of \<^verbatim>\<open>src/notifier.go\<close>; the location of a logger stands for the writer that was opened for it.\<close>

definition NewDebuggerNotifier :: "string \<Rightarrow> Notifier.Options \<Rightarrow> notifier_kind outcome" where
  "NewDebuggerNotifier w opts = Inr (DebuggerNotifier w opts)"

definition NewExternalNotifier :: "(string \<Rightarrow> go_error option) \<Rightarrow> string \<Rightarrow> Notifier.Options \<Rightarrow> notifier_kind outcome" where
  "NewExternalNotifier dial a opts = (case dial a of Some e \<Rightarrow> Inl e | None \<Rightarrow> Inr (ExternalNotifier a opts))"

text \<open>
  The result as the function returns it: a pointer to the pool, nil or not, and an error, nil or
  not. \<open>dial\<close> and \<open>create\<close> give the errors of connecting and of creating the log file. When the log
  file cannot be created the function returns the variable \<^verbatim>\<open>err\<close>, which is nil at that point.
\<close>

fun setup_notifiers ::
  "(string \<Rightarrow> go_error option) \<Rightarrow> (string \<Rightarrow> go_error option) \<Rightarrow> notifier_config list \<Rightarrow>
   notifier_kind list option \<times> go_error option" where
  "setup_notifiers dial create [] = (Some [], None)"
| "setup_notifiers dial create (v # vs) =
     (let more = setup_notifiers dial create vs;
          add = (\<lambda>r. case r of Inl e \<Rightarrow> (None, Some e) | Inr n \<Rightarrow> (map_option (Cons n) (fst more), snd more))
      in if nc_Scheme v = ''udp'' then add (NewExternalNotifier dial (nc_Location v) (config_options v))
         else if nc_Scheme v = ''logger'' then
           (if nc_Location v \<notin> {''/dev/null'', ''''} \<and> create (nc_Location v) \<noteq> None then (None, None)
            else add (NewDebuggerNotifier (nc_Location v) (config_options v)))
         else more)"

definition setupPool ::
  "(string \<Rightarrow> go_error option) \<Rightarrow> (string \<Rightarrow> go_error option) \<Rightarrow> pool_config \<Rightarrow>
   (notifier_kind list \<times> Pool) option \<times> go_error option" where
  "setupPool dial create p =
     (let delay = Seconds (pc_Interval p);
          age = Seconds (pc_Limit p);
          (ns, err) = setup_notifiers dial create (pc_Notifiers p)
      in (map_option (\<lambda>ns. (ns, NewPool age delay)) ns, err))"

text \<open>Calling a method on a nil pool dereferences it.\<close>

definition notify_pool :: "gotime \<Rightarrow> Item \<Rightarrow> (notifier_kind list \<times> Pool) option \<Rightarrow> Pool outcome" where
  "notify_pool now i pool =
     (case pool of None \<Rightarrow> Inl (GoPanic ''nil pointer dereference'') | Some (_, p) \<Rightarrow> Inr (Pool_Notify now i p))"

section \<open>Storages\<close>

datatype 'r built_store =
    BuiltRecords string hrdp_format 'r
  | BuiltArchive "'r tarstore"
  | BuiltFiles filestore

fun mkdir_shares :: "Filestore.Options list \<Rightarrow> fs \<Rightarrow> go_error option \<times> fs" where
  "mkdir_shares [] f = (None, f)"
| "mkdir_shares (s # ss) f =
     (let (err, f) = MkdirAll (o_Location s) f in
      if o_Location s \<noteq> '''' \<and> err \<noteq> None then (err, f) else mkdir_shares ss f)"

definition mkdirAll :: "Filestore.Options \<Rightarrow> fs \<Rightarrow> go_error option \<times> fs" where
  "mkdirAll v f =
     (let (err, f) = MkdirAll (o_Location v) f in
      if o_Location v \<noteq> '''' \<and> err \<noteq> None then (err, f) else mkdir_shares (o_Shares v) f)"

definition build_store :: "'r roll \<Rightarrow> Filestore.Options \<Rightarrow> fs \<Rightarrow> 'r built_store outcome \<times> fs" where
  "build_store ro v f =
     (if o_Scheme v \<in> {''hrdp'', ''tar'', ''archive'', ''file''} then
        (case mkdirAll v f of
           (Some e, f) \<Rightarrow> (Inl e, f)
         | (None, f) \<Rightarrow>
             (if o_Scheme v = ''hrdp'' then
                (case NewHRDPStorage ro v f of (Inl e, f) \<Rightarrow> (Inl e, f) | (Inr (d, fmt, w), f) \<Rightarrow> (Inr (BuiltRecords d fmt w), f))
              else if o_Scheme v = ''file'' then
                (case NewLocalStorage v f of Inl e \<Rightarrow> (Inl e, f) | Inr s \<Rightarrow> (Inr (BuiltFiles s), f))
              else (case NewArchiveStorage v f of Inl e \<Rightarrow> (Inl e, f) | Inr t \<Rightarrow> (Inr (BuiltArchive t), f))))
      else (Inl (Errorf ''%s: unrecognized storage type''), f))"

fun setup_stores :: "'r roll \<Rightarrow> Filestore.Options list \<Rightarrow> fs \<Rightarrow> 'r built_store list outcome \<times> fs" where
  "setup_stores ro [] f = (Inr [], f)"
| "setup_stores ro (v # vs) f =
     (if o_Scheme v = '''' then setup_stores ro vs f
      else
        (case build_store ro v f of
           (Inl e, f) \<Rightarrow> (Inl e, f)
         | (Inr s, f) \<Rightarrow> (case setup_stores ro vs f of (Inl e, f) \<Rightarrow> (Inl e, f) | (Inr ss, f) \<Rightarrow> (Inr (s # ss), f))))"

definition setupStorage :: "'r roll \<Rightarrow> Filestore.Options list \<Rightarrow> fs \<Rightarrow> 'r built_store list outcome \<times> fs" where
  "setupStorage ro vs f =
     (if length vs = 0 then (Inl (Errorf ''no storage defined! abort''), f) else setup_stores ro vs f)"

section \<open>Properties of the conversion\<close>

definition decodes :: "panda \<Rightarrow> (int \<Rightarrow> decoder outcome) \<Rightarrow> Packet \<Rightarrow> HRPacket option" where
  "decodes pa mk p =
     (case decoder_for pa mk (uint (pk_Version p)) of
        None \<Rightarrow> None
      | Some d \<Rightarrow> (case d (pk_Payload p) of Inl _ \<Rightarrow> None
                   | Inr hr \<Rightarrow> if hr_kind hr = OtherPacket then None else Some hr))"

definition decoded_items :: "panda \<Rightarrow> (int \<Rightarrow> decoder outcome) \<Rightarrow> Packet list \<Rightarrow> Item list" where
  "decoded_items pa mk ps =
     concat (map (\<lambda>p. case decodes pa mk p of None \<Rightarrow> [] | Some hr \<Rightarrow> [convert_item p hr]) ps)"

text \<open>The counters against the number of packets \<open>n\<close> and the number of decodable ones \<open>m\<close>.\<close>

definition convert_inv :: "nat \<Rightarrow> nat \<Rightarrow> convert \<Rightarrow> bool" where
  "convert_inv n m c \<longleftrightarrow>
     chan_inv (cv_queue c) \<and> cv_total c = int (length (accepted (cv_queue c))) \<and>
     cv_total c + cv_skipped c + cv_errors c = int n \<and> cv_total c + cv_skipped c = int m \<and>
     cv_image c + cv_science c = int m"

lemma convert_packet_error:
  "decodes pa mk p = None \<Longrightarrow> convert_packet pa mk p c = c\<lparr>cv_errors := cv_errors c + 1\<rparr>"
  by (auto simp: decodes_def convert_packet_def split: option.splits sum.splits packet_kind.splits if_splits)

lemma convert_packet_ok:
  assumes "decodes pa mk p = Some hr"
  shows "\<exists>c'. convert_packet pa mk p c = convert_send p hr c' \<and> cv_queue c' = cv_queue c \<and>
    cv_total c' = cv_total c \<and> cv_skipped c' = cv_skipped c \<and> cv_errors c' = cv_errors c \<and>
    cv_image c' + cv_science c' = cv_image c + cv_science c + 1"
  using assms
  by (auto simp: decodes_def convert_packet_def split: option.splits sum.splits packet_kind.splits if_splits)

lemma convert_send_inv:
  assumes "chan_inv (cv_queue c)"
  shows "chan_inv (cv_queue (convert_send p hr c)) \<and>
    (accepted (cv_queue (convert_send p hr c)) = accepted (cv_queue c) @ [convert_item p hr] \<and>
       cv_total (convert_send p hr c) = cv_total c + 1 \<and> cv_skipped (convert_send p hr c) = cv_skipped c \<or>
     accepted (cv_queue (convert_send p hr c)) = accepted (cv_queue c) \<and>
       cv_total (convert_send p hr c) = cv_total c \<and> cv_skipped (convert_send p hr c) = cv_skipped c + 1) \<and>
    cv_errors (convert_send p hr c) = cv_errors c \<and> cv_image (convert_send p hr c) = cv_image c \<and>
    cv_science (convert_send p hr c) = cv_science c"
proof (cases "try_send (convert_item p hr) (cv_queue c)")
  case (Pair ok q)
  then show ?thesis
    using nonblocking.send_inv [OF assms, of "convert_item p hr"]
      nonblocking.send_ok [OF assms, of "convert_item p hr" q] nonblocking.send_full [of "convert_item p hr" "cv_queue c" q]
    by (cases ok) (simp_all add: convert_send_def)
qed

lemma Convert_inv:
  "convert_inv n m c \<Longrightarrow>
     (let c' = Convert pa mk es c; its = decoded_items pa mk (offered es) in
      convert_inv (n + length (offered es)) (m + length its) c' \<and>
      (\<exists>xs. accepted (cv_queue c') = accepted (cv_queue c) @ xs \<and> subseq xs its))"
proof (induction pa mk es c arbitrary: n m rule: Convert.induct)
  case (1 pa mk c)
  then show ?case by (simp add: offered_def decoded_items_def)
next
  case (2 pa mk p es c)
  show ?case
  proof (cases "decodes pa mk p")
    case None
    then have "convert_inv (Suc n) m (convert_packet pa mk p c)"
      using "2.prems" by (simp add: convert_packet_error convert_inv_def)
    from "2.IH" [OF this] None show ?thesis
      by (simp add: Let_def offered_def decoded_items_def convert_packet_error)
  next
    case (Some hr)
    from convert_packet_ok [OF this, of c] obtain c1 where c1: "convert_packet pa mk p c = convert_send p hr c1"
      "cv_queue c1 = cv_queue c" "cv_total c1 = cv_total c" "cv_skipped c1 = cv_skipped c"
      "cv_errors c1 = cv_errors c" "cv_image c1 + cv_science c1 = cv_image c + cv_science c + 1" by blast
    have "chan_inv (cv_queue c1)" using "2.prems" c1 by (simp add: convert_inv_def)
    note send = convert_send_inv [OF this, of p hr]
    then have "convert_inv (Suc n) (Suc m) (convert_packet pa mk p c)"
      using "2.prems" c1 by (auto simp: convert_inv_def)
    from "2.IH" [OF this] Some send c1 show ?thesis
      by (auto simp: Let_def offered_def decoded_items_def)
  qed
next
  case (3 pa mk es c)
  have "convert_inv n m (c\<lparr>cv_queue := chan_recv (cv_queue c)\<rparr>)"
    using "3.prems" nonblocking.recv_contents nonblocking.recv_inv by (auto simp: convert_inv_def)
  from "3.IH" [OF this] "3.prems" show ?case
    by (simp add: Let_def offered_def decoded_items_def convert_inv_def nonblocking.recv_contents)
qed


section \<open>Properties of the main loop\<close>

lemma runListen_world:
  "li_world (runListen_loop store xs s) =
     snd (run_all (map (\<lambda>(now, i). store (ucast (it_Instance i)) (it_packet i)) xs) (li_world s))"
  unfolding runListen_loop_def
  by (induction xs arbitrary: s) (auto simp: listen_item_def Let_def split: prod.splits)

lemma runListen_logged:
  "li_logged (runListen_loop store xs s) = li_logged s +
     length (filter (\<lambda>e. e \<noteq> None) (fst (run_all (map (\<lambda>(now, i). store (ucast (it_Instance i)) (it_packet i)) xs) (li_world s))))"
  unfolding runListen_loop_def
  by (induction xs arbitrary: s) (auto simp: listen_item_def Let_def split: prod.splits)

lemma runListen_modules:
  assumes "li_modules s = Some q" and "chan_inv q"
  shows "\<exists>q' ys. li_modules (runListen_loop store xs s) = Some q' \<and> chan_inv q' \<and>
    accepted q' = accepted q @ ys \<and> subseq ys (map snd xs)"
  using assms
proof (induction xs arbitrary: s q)
  case (Cons x xs)
  obtain now i where x: "x = (now, i)" by fastforce
  obtain ok q1 where q1: "try_send i q = (ok, q1)" by fastforce
  let ?s = "listen_item store now i s"
  have "li_modules ?s = Some q1" using Cons.prems q1 by (simp add: listen_item_def split: prod.splits)
  moreover have inv: "chan_inv q1" using nonblocking.send_inv [OF Cons.prems(2), of i] q1 by simp
  ultimately obtain q' ys where q': "li_modules (runListen_loop store xs ?s) = Some q'" "chan_inv q'"
    "accepted q' = accepted q1 @ ys" "subseq ys (map snd xs)" using Cons.IH by blast
  have "accepted q1 = accepted q @ (if ok then [i] else [])"
    using q1 nonblocking.send_ok [OF Cons.prems(2), of i q1] nonblocking.send_full [of i q q1] by (cases ok) simp_all
  then have "accepted q' = accepted q @ (if ok then [i] else []) @ ys" using q' by simp
  moreover have "subseq ((if ok then [i] else []) @ ys) (map snd (x # xs))" using q' x by (simp add: list_emb_Cons)
  moreover have "li_modules (runListen_loop store (x # xs) s) = Some q'"
    using q' x by (simp add: runListen_loop_def)
  ultimately show ?case using q'(2) by blast
qed (simp add: runListen_loop_def)

text \<open>
  Every item that reaches the main loop is given to the storage exactly once and in order, with the
  low byte of its instance, whatever the storage returned for the items before it (errors are only
  logged) and whether or not the pool and the modules keep up; the modules see a subsequence of the items, in order.
\<close>

theorem runListen_stores_all:
  "li_world (runListen_loop store xs s) =
     snd (run_all (map (\<lambda>(now, i). store (ucast (it_Instance i)) (it_packet i)) xs) (li_world s)) \<and>
   li_logged (runListen_loop store xs s) = li_logged s +
     length (filter (\<lambda>e. e \<noteq> None) (fst (run_all (map (\<lambda>(now, i). store (ucast (it_Instance i)) (it_packet i)) xs) (li_world s)))) \<and>
   (li_modules s = Some (make_chan n) \<longrightarrow>
     (\<exists>q. li_modules (runListen_loop store xs s) = Some q \<and> subseq (accepted q) (map snd xs)))"
  using runListen_modules [of s "make_chan n" store xs]
  by (auto simp: runListen_world runListen_logged)

theorem runListen_stores_all_witness:
  "\<exists>q. li_modules (runListen_loop (\<lambda>i p s. (None, Suc s)) [(zero_time, sample_item)]
      \<lparr>li_world = (0::nat), li_pool = NewPool 0 0, li_modules = Some (make_chan 1), li_logged = 0\<rparr>) = Some q \<and>
     subseq (accepted q) (map snd [(zero_time, sample_item)])"
  using runListen_stores_all [of "\<lambda>i p s. (None, Suc s)" "[(zero_time, sample_item)]"
      "\<lparr>li_world = (0::nat), li_pool = NewPool 0 0, li_modules = Some (make_chan 1), li_logged = 0\<rparr>" 1] by simp

section \<open>Properties of the set-up\<close>

text \<open>
  When the file of a logging notifier cannot be created, the set-up of the pool reports neither a
  pool nor an error, so that the listener starts; the first packet then dereferences the nil pool. Without such a
  notifier the set-up gives either a pool or an error.
\<close>

theorem setupPool_create_failure:
  "(nc_Scheme v = ''logger'' \<and> nc_Location v \<notin> {''/dev/null'', ''''} \<and> create (nc_Location v) = Some e \<and>
      pc_Notifiers c = [v] \<longrightarrow>
    setupPool dial create c = (None, None) \<and>
    notify_pool now i (fst (setupPool dial create c)) = Inl (GoPanic ''nil pointer dereference'')) \<and>
   ((\<forall>v\<in>set (pc_Notifiers c). create (nc_Location v) = None) \<longrightarrow>
    (fst (setupPool dial create c) = None) \<longleftrightarrow> (snd (setupPool dial create c) \<noteq> None))"
proof -
  have "\<forall>v\<in>set vs. create (nc_Location v) = None \<Longrightarrow>
      (fst (setup_notifiers dial create vs) = None) \<longleftrightarrow> (snd (setup_notifiers dial create vs) \<noteq> None)" for vs
    by (induction vs) (auto simp: Let_def NewExternalNotifier_def NewDebuggerNotifier_def split: option.splits)
  from this [of "pc_Notifiers c"] show ?thesis
    by (auto simp: setupPool_def notify_pool_def Let_def split: prod.splits)
qed

theorem setupPool_create_failure_witness:
  "setupPool (\<lambda>_. None) (\<lambda>_. Some ENOENT)
     \<lparr>pc_Interval = 1, pc_Limit = 0, pc_Notifiers = [\<lparr>nc_Scheme = ''logger'', nc_Location = ''/missing/log'', nc_Source = [],
        nc_Instance = 0, nc_Channels = []\<rparr>]\<rparr> = (None, None)"
  using setupPool_create_failure [of "\<lparr>nc_Scheme = ''logger'', nc_Location = ''/missing/log'', nc_Source = [],
        nc_Instance = 0, nc_Channels = []\<rparr>" "\<lambda>_. Some ENOENT" ENOENT
      "\<lparr>pc_Interval = 1, pc_Limit = 0, pc_Notifiers = [\<lparr>nc_Scheme = ''logger'', nc_Location = ''/missing/log'', nc_Source = [],
        nc_Instance = 0, nc_Channels = []\<rparr>]\<rparr>" "\<lambda>_. None" zero_time sample_item] by simp

end
