(* ===== verification/Transition.thy ===== *)
theory Transition
  imports Hadock_Prelude
begin

text \<open>
  Interfaces for the concurrent parts of the program, which are step relations: \<open>step_invariant\<close> for
  predicates that every step keeps, \<open>refines\<close> for a machine whose states are mapped to those of an abstract
  specification (a step is matched by an abstract step or leaves the abstract state as it is), and
  \<open>draining\<close> for machines that come to an end whatever the order of their steps.
\<close>

definition reachable :: "('s \<Rightarrow> bool) \<Rightarrow> ('s \<Rightarrow> 's \<Rightarrow> bool) \<Rightarrow> 's \<Rightarrow> bool" where
  "reachable init step s \<longleftrightarrow> (\<exists>s0. init s0 \<and> step\<^sup>*\<^sup>* s0 s)"

lemma reachable_init: "init s \<Longrightarrow> reachable init step s"
  unfolding reachable_def by blast

lemma reachable_step: "reachable init step s \<Longrightarrow> step s s' \<Longrightarrow> reachable init step s'"
  unfolding reachable_def by (meson rtranclp.rtrancl_into_rtrancl)

lemma reachable_induct [consumes 1, case_names init step]:
  assumes "reachable init step s"
    and "\<And>s. init s \<Longrightarrow> P s"
    and "\<And>s s'. reachable init step s \<Longrightarrow> P s \<Longrightarrow> step s s' \<Longrightarrow> P s'"
  shows "P s"
proof -
  obtain s0 where "init s0" and "step\<^sup>*\<^sup>* s0 s" using assms(1) unfolding reachable_def by blast
  from this(2) have "P s \<and> reachable init step s"
    by (induction rule: rtranclp_induct) (auto intro: assms(2,3) reachable_init reachable_step \<open>init s0\<close>)
  then show ?thesis ..
qed

section \<open>Invariants\<close>

locale step_invariant =
  fixes init :: "'s \<Rightarrow> bool" and step :: "'s \<Rightarrow> 's \<Rightarrow> bool" and I :: "'s \<Rightarrow> bool"
  assumes starts: "init s \<Longrightarrow> I s"
    and kept: "I s \<Longrightarrow> step s s' \<Longrightarrow> I s'"
begin

lemma always: "reachable init step s \<Longrightarrow> I s"
  by (induction rule: reachable_induct) (auto intro: starts kept)

lemma along: "I s \<Longrightarrow> step\<^sup>*\<^sup>* s s' \<Longrightarrow> I s'"
  by (rotate_tac, induction rule: rtranclp_induct) (auto intro: kept)

end

section \<open>Refinement\<close>

locale refines = step_invariant init step I
  for init :: "'s \<Rightarrow> bool" and step :: "'s \<Rightarrow> 's \<Rightarrow> bool" and I :: "'s \<Rightarrow> bool" +
  fixes ainit :: "'a \<Rightarrow> bool" and astep :: "'a \<Rightarrow> 'a \<Rightarrow> bool" and abst :: "'s \<Rightarrow> 'a"
  assumes init_abst: "init s \<Longrightarrow> ainit (abst s)"
    and step_abst: "I s \<Longrightarrow> step s s' \<Longrightarrow> abst s' = abst s \<or> astep (abst s) (abst s')"
begin

lemma reachable_abst: "reachable init step s \<Longrightarrow> reachable ainit astep (abst s)"
proof (induction rule: reachable_induct)
  case (step s s')
  then show ?case using step_abst [OF always] reachable_step by fastforce
qed (intro reachable_init init_abst)

text \<open>Every invariant of the specification holds of the machine.\<close>

lemma transport:
  assumes "\<And>a. reachable ainit astep a \<Longrightarrow> P a" and "reachable init step s"
  shows "P (abst s)"
  by (rule assms(1)) (rule reachable_abst [OF assms(2)])

end

section \<open>Machines that end\<close>

locale draining =
  fixes step :: "'s \<Rightarrow> 's \<Rightarrow> bool" and I :: "'s \<Rightarrow> bool" and left :: "'s \<Rightarrow> nat" and ended :: "'s \<Rightarrow> bool"
  assumes keeps: "I s \<Longrightarrow> step s s' \<Longrightarrow> I s'"
    and shrinks: "I s \<Longrightarrow> step s s' \<Longrightarrow> left s' < left s"
    and progress: "I s \<Longrightarrow> \<not> ended s \<Longrightarrow> \<exists>s'. step s s'"
begin

lemma keeps_along: "step\<^sup>*\<^sup>* s s' \<Longrightarrow> I s \<Longrightarrow> I s'"
  by (induction rule: rtranclp_induct) (auto intro: keeps)

lemma run_bounded: "(step ^^ n) s s' \<Longrightarrow> I s \<Longrightarrow> n + left s' \<le> left s"
proof (induction n arbitrary: s')
  case (Suc n)
  from Suc.prems(1) obtain t where t: "(step ^^ n) s t" "step t s'" by auto
  with Suc.IH Suc.prems(2) have "n + left t \<le> left s" by blast
  moreover have "I t" using keeps_along [OF relpowp_imp_rtranclp [OF t(1)] Suc.prems(2)] .
  ultimately show ?case using shrinks [OF _ t(2)] by fastforce
qed simp

lemma ends: "I s \<Longrightarrow> \<exists>s'. step\<^sup>*\<^sup>* s s' \<and> I s' \<and> ended s'"
proof (induction "left s" arbitrary: s rule: less_induct)
  case less
  show ?case
  proof (cases "ended s")
    case False
    with progress less.prems obtain t where t: "step s t" by blast
    then have "left t < left s" "I t" using shrinks keeps less.prems by blast+
    from less.hyps [OF this] t show ?thesis by (meson converse_rtranclp_into_rtranclp)
  qed (use less.prems in blast)
qed

text \<open>Every run that cannot go on has come to the end.\<close>

lemma stuck_ended: "I s \<Longrightarrow> step\<^sup>*\<^sup>* s s' \<Longrightarrow> \<nexists>t. step s' t \<Longrightarrow> ended s'"
  using progress keeps_along by blast

end

end
