(* ===== verification/Listener.thy ===== *)
theory Listener
  imports Listen Transition
begin

text \<open>
  The listener as a whole (\<^verbatim>\<open>src/cmd/hadock/listen.go\<close>): the goroutines that accept connections and
  deliver their packets, and the system they form with the converting goroutine, the main loop, the
  goroutine of the modules and that of the pool, as a step relation over their channels. The system
  is shown to refine a lossy queue, and to come to an end when the socket has failed.
\<close>

section \<open>Connections\<close>

text \<open>
  The accepting goroutine and one goroutine per connection. A connection is the list of packets its
  decoder will still deliver; \<open>sv_offered\<close> keeps the whole list and \<open>sv_sent\<close> what was sent to the queue, with
  the connection it came from. When \<^verbatim>\<open>Accept\<close> fails the queue is closed; a connection that then
  delivers a packet sends on a closed channel, which panics.
\<close>

record server =
  sv_size :: nat
  sv_next :: nat
  sv_conns :: "nat \<rightharpoonup> Packet list"
  sv_offered :: "nat \<rightharpoonup> Packet list"
  sv_queue :: "Packet list"
  sv_sent :: "(nat \<times> Packet) list"
  sv_closed :: bool
  sv_panic :: bool

definition new_server :: "nat \<Rightarrow> server" where
  "new_server n = \<lparr>sv_size = (if n = 0 then n + 1 else n), sv_next = 0, sv_conns = Map.empty,
     sv_offered = Map.empty, sv_queue = [], sv_sent = [], sv_closed = False, sv_panic = False\<rparr>"

text \<open>The call, with the error of the socket or the state in which its goroutine starts.\<close>

definition ListenPackets :: "(string \<Rightarrow> go_error option) \<Rightarrow> string \<Rightarrow> nat \<Rightarrow> server outcome" where
  "ListenPackets listen a n = (case listen a of Some e \<Rightarrow> Inl e | None \<Rightarrow> Inr (new_server n))"

inductive listen_step :: "server \<Rightarrow> server \<Rightarrow> bool" where
  accept: "\<not> sv_closed s \<Longrightarrow>
    listen_step s (s\<lparr>sv_next := sv_next s + 1, sv_conns := (sv_conns s)(sv_next s \<mapsto> ps),
      sv_offered := (sv_offered s)(sv_next s \<mapsto> ps)\<rparr>)"
| fails: "\<not> sv_closed s \<Longrightarrow> listen_step s (s\<lparr>sv_closed := True\<rparr>)"
| deliver: "sv_conns s c = Some (p # ps) \<Longrightarrow> \<not> sv_closed s \<Longrightarrow> length (sv_queue s) < sv_size s \<Longrightarrow>
    listen_step s (s\<lparr>sv_conns := (sv_conns s)(c \<mapsto> ps), sv_queue := sv_queue s @ [p], sv_sent := sv_sent s @ [(c, p)]\<rparr>)"
| deliver_closed: "sv_conns s c = Some (p # ps) \<Longrightarrow> sv_closed s \<Longrightarrow> listen_step s (s\<lparr>sv_panic := True\<rparr>)"
| hangup: "sv_conns s c = Some [] \<Longrightarrow> listen_step s (s\<lparr>sv_conns := (sv_conns s)(c := None)\<rparr>)"

inductive_cases listen_stepE: "listen_step s s'"

section \<open>The system\<close>

text \<open>
  \<open>sy_handled\<close> and \<open>sy_processed\<close> count the received items that the main loop and the goroutine of the
  modules have finished with; \<open>sy_log\<close> has the lines of the reporting goroutine. The counters of the
  conversion are updated by two goroutines without synchronisation; here each step is atomic.
\<close>

type_synonym report_line = "int \<times> int \<times> int \<times> int \<times> int \<times> int"

record ('s, 'm) system =
  sy_server :: server
  sy_convert :: convert
  sy_ended :: bool
  sy_log :: "report_line list"
  sy_main :: "'s listen"
  sy_handled :: nat
  sy_returned :: bool
  sy_plugins :: 'm
  sy_processed :: nat

definition report_lines :: "convert \<Rightarrow> report_line list" where
  "report_lines c =
     (if 0 < cv_total c \<or> 0 < cv_skipped c \<or> 0 < cv_errors c
      then [(cv_total c, cv_image c, cv_science c, cv_skipped c, cv_errors c, cv_size c div 1024)] else [])"

text \<open>The converting goroutine and the main loop.\<close>

inductive main_step ::
  "panda \<Rightarrow> (int \<Rightarrow> decoder outcome) \<Rightarrow> 's Storage \<Rightarrow> ('s, 'm) system \<Rightarrow> ('s, 'm) system \<Rightarrow> bool"
  for pa mk store where
  convert: "sv_queue (sy_server s) = p # ps \<Longrightarrow>
    main_step pa mk store s (s\<lparr>sy_server := (sy_server s)\<lparr>sv_queue := ps\<rparr>, sy_convert := convert_packet pa mk p (sy_convert s)\<rparr>)"
| convert_end: "sv_queue (sy_server s) = [] \<Longrightarrow> sv_closed (sy_server s) \<Longrightarrow> \<not> sy_ended s \<Longrightarrow>
    main_step pa mk store s (s\<lparr>sy_ended := True\<rparr>)"
| recv: "cv_queue (sy_convert s) = q \<Longrightarrow> sy_handled s = length (ch_out q) \<Longrightarrow> \<not> ch_waiting q \<Longrightarrow>
    main_step pa mk store s (s\<lparr>sy_convert := (sy_convert s)\<lparr>cv_queue := chan_recv q\<rparr>\<rparr>)"
| handle: "cv_queue (sy_convert s) = q \<Longrightarrow> sy_handled s < length (ch_out q) \<Longrightarrow>
    main_step pa mk store s (s\<lparr>sy_main := listen_item store now (ch_out q ! sy_handled s) (sy_main s),
      sy_handled := sy_handled s + 1\<rparr>)"
| return: "cv_queue (sy_convert s) = q \<Longrightarrow> sy_ended s \<Longrightarrow> ch_buf q = [] \<Longrightarrow> sy_handled s = length (ch_out q) \<Longrightarrow>
    \<not> sy_returned s \<Longrightarrow> main_step pa mk store s (s\<lparr>sy_returned := True\<rparr>)"

inductive_cases main_stepE: "main_step pa mk store s s'"

definition running :: "('s, 'm) system \<Rightarrow> bool" where
  "running s \<longleftrightarrow> \<not> sv_panic (sy_server s) \<and> \<not> sy_returned s"

text \<open>The system: nothing happens after a panic or when the main loop has returned.\<close>

inductive sys_step ::
  "panda \<Rightarrow> (int \<Rightarrow> decoder outcome) \<Rightarrow> 's Storage \<Rightarrow> (HRPacket, 'm) Module list \<Rightarrow>
   ('s, 'm) system \<Rightarrow> ('s, 'm) system \<Rightarrow> bool"
  for pa mk store ms where
  connection: "running s \<Longrightarrow> listen_step (sy_server s) sv \<Longrightarrow> sys_step pa mk store ms s (s\<lparr>sy_server := sv\<rparr>)"
| main: "running s \<Longrightarrow> main_step pa mk store s s' \<Longrightarrow> sys_step pa mk store ms s s'"
| report: "running s \<Longrightarrow>
    sys_step pa mk store ms s (s\<lparr>sy_log := sy_log s @ report_lines (sy_convert s), sy_convert := convert_tick (sy_convert s)\<rparr>)"
| module_recv: "running s \<Longrightarrow> li_modules (sy_main s) = Some q \<Longrightarrow> sy_processed s = length (ch_out q) \<Longrightarrow> \<not> ch_waiting q \<Longrightarrow>
    sys_step pa mk store ms s (s\<lparr>sy_main := (sy_main s)\<lparr>li_modules := Some (chan_recv q)\<rparr>\<rparr>)"
| module_process: "running s \<Longrightarrow> li_modules (sy_main s) = Some q \<Longrightarrow> sy_processed s < length (ch_out q) \<Longrightarrow>
    i = ch_out q ! sy_processed s \<Longrightarrow>
    sys_step pa mk store ms s
      (s\<lparr>sy_plugins := snd (multiModule_Process ms (ucast (it_Instance i)) (it_packet i) (sy_plugins s)),
         sy_processed := sy_processed s + 1\<rparr>)"
| pool_recv: "running s \<Longrightarrow> pool_queue (li_pool (sy_main s)) = Some q \<Longrightarrow> ch_buf q = i # rest \<Longrightarrow>
    sys_step pa mk store ms s (s\<lparr>sy_main := (sy_main s)\<lparr>li_pool :=
      pool_receive i ((li_pool (sy_main s))\<lparr>pool_queue := Some (chan_recv q)\<rparr>)\<rparr>\<rparr>)"
| pool_ticks: "running s \<Longrightarrow> distinct ks \<Longrightarrow> set ks = dom (pool_cache (li_pool (sy_main s))) \<Longrightarrow>
    sys_step pa mk store ms s (s\<lparr>sy_main := (sy_main s)\<lparr>li_pool := pool_tick ks (li_pool (sy_main s))\<rparr>\<rparr>)"

inductive_cases sys_stepE: "sys_step pa mk store ms s s'"

text \<open>The system when the main loop starts.\<close>

definition new_system :: "nat \<Rightarrow> 's listen \<Rightarrow> 'm \<Rightarrow> ('s, 'm) system" where
  "new_system n l m = \<lparr>sy_server = new_server n, sy_convert = new_convert n, sy_ended = False, sy_log = [],
     sy_main = l, sy_handled = 0, sy_returned = False, sy_plugins = m, sy_processed = 0\<rparr>"

section \<open>Properties of the connections\<close>

definition sent_by :: "server \<Rightarrow> nat \<Rightarrow> Packet list" where
  "sent_by s c = map snd (filter (\<lambda>x. fst x = c) (sv_sent s))"

definition still_to_send :: "server \<Rightarrow> nat \<Rightarrow> Packet list" where
  "still_to_send s c = (case sv_conns s c of None \<Rightarrow> [] | Some ps \<Rightarrow> ps)"

definition server_inv :: "server \<Rightarrow> bool" where
  "server_inv s \<longleftrightarrow> length (sv_queue s) \<le> sv_size s \<and> (sv_panic s \<longrightarrow> sv_closed s) \<and>
     (\<forall>c\<ge>sv_next s. sv_offered s c = None) \<and>
     (\<forall>c. sv_offered s c = None \<longrightarrow> sv_conns s c = None \<and> sent_by s c = []) \<and>
     (\<forall>c ps. sv_offered s c = Some ps \<longrightarrow> ps = sent_by s c @ still_to_send s c)"

lemma server_inv_init: "server_inv (new_server n)"
  by (simp add: server_inv_def new_server_def sent_by_def)

lemma server_inv_step:
  assumes "listen_step s s'" and "server_inv s"
  shows "server_inv s'"
  using assms
proof (cases rule: listen_step.cases)
  case (accept ps)
  then show ?thesis using assms(2) by (auto simp: server_inv_def sent_by_def still_to_send_def)
next
  case (deliver c p ps)
  then have "sv_offered s c \<noteq> None" using assms(2) unfolding server_inv_def by (metis option.distinct(1))
  have by_c: "sent_by s' d = (if d = c then sent_by s c @ [p] else sent_by s d)"
    and to_c: "still_to_send s' d = (if d = c then ps else still_to_send s d)" for d
    using deliver by (simp_all add: sent_by_def still_to_send_def)
  have "still_to_send s c = p # ps" using deliver by (simp add: still_to_send_def)
  then have "\<forall>d qs. sv_offered s' d = Some qs \<longrightarrow> qs = sent_by s' d @ still_to_send s' d"
    using assms(2) deliver(1) unfolding by_c to_c by (auto simp: server_inv_def)
  moreover have "\<forall>d. sv_offered s' d = None \<longrightarrow> sv_conns s' d = None \<and> sent_by s' d = []"
    using assms(2) deliver(1) \<open>sv_offered s c \<noteq> None\<close> unfolding by_c by (auto simp: server_inv_def)
  ultimately show ?thesis using assms(2) deliver by (simp add: server_inv_def)
next
  case (hangup c)
  have "still_to_send s' d = still_to_send s d" and "sent_by s' d = sent_by s d" for d
    using hangup by (simp_all add: still_to_send_def sent_by_def)
  with hangup assms(2) show ?thesis by (simp add: server_inv_def)
qed (auto simp: server_inv_def sent_by_def still_to_send_def)

lemma sent_by_prefix: "server_inv s \<Longrightarrow> sv_offered s c = Some ps \<Longrightarrow> prefix (sent_by s c) ps"
  unfolding server_inv_def prefix_def by blast

interpretation connections: step_invariant "\<lambda>s. s = new_server n" listen_step server_inv for n
  by unfold_locales (auto intro: server_inv_init server_inv_step)

text \<open>
  The listener panics only after its socket failed, but then it can: a connection accepted
  before the failure that delivers one more packet sends on the closed queue.
\<close>

theorem listener_send_on_closed:
  "(\<exists>s. reachable (\<lambda>s. s = new_server n) listen_step s \<and> sv_panic s) \<and>
   (\<forall>s. reachable (\<lambda>s. s = new_server n) listen_step s \<longrightarrow> sv_panic s \<longrightarrow> sv_closed s)"
proof -
  let ?r = "reachable (\<lambda>s. s = new_server n) listen_step"
  let ?s1 = "(new_server n)\<lparr>sv_next := 1, sv_conns := [0 \<mapsto> [new_Packet]], sv_offered := [0 \<mapsto> [new_Packet]]\<rparr>"
  have "?r ?s1"
    by (rule reachable_step [OF reachable_init [of _ "new_server n"]])
       (use listen_step.accept [of "new_server n" "[new_Packet]"] in \<open>simp_all add: new_server_def\<close>)
  then have "?r (?s1\<lparr>sv_closed := True\<rparr>)"
    by (rule reachable_step) (rule listen_step.fails, simp add: new_server_def)
  then have "?r (?s1\<lparr>sv_closed := True, sv_panic := True\<rparr>)"
    by (rule reachable_step) (use listen_step.deliver_closed [of "?s1\<lparr>sv_closed := True\<rparr>" 0 new_Packet "[]"] in simp)
  moreover have "?r s \<Longrightarrow> sv_panic s \<Longrightarrow> sv_closed s" for s
    using connections.always [of n s] by (simp add: server_inv_def)
  ultimately show ?thesis by fastforce
qed

section \<open>The specification: a lossy queue\<close>

text \<open>
  Items are sent, wait, and are stored in the order they were sent; an item that waits may be lost, and
  the losses are counted.
\<close>

record pipeline =
  pl_sent :: "Item list"
  pl_pending :: "Item list"
  pl_stored :: "Item list"
  pl_lost :: int

definition empty_pipeline :: pipeline where
  "empty_pipeline = \<lparr>pl_sent = [], pl_pending = [], pl_stored = [], pl_lost = 0\<rparr>"

inductive pipeline_step :: "pipeline \<Rightarrow> pipeline \<Rightarrow> bool" where
  send: "pipeline_step a (a\<lparr>pl_sent := pl_sent a @ [i], pl_pending := pl_pending a @ [i]\<rparr>)"
| lose: "pl_pending a = xs @ i # ys \<Longrightarrow> pipeline_step a (a\<lparr>pl_pending := xs @ ys, pl_lost := pl_lost a + 1\<rparr>)"
| store: "pl_pending a = i # ys \<Longrightarrow> pipeline_step a (a\<lparr>pl_pending := ys, pl_stored := pl_stored a @ [i]\<rparr>)"

definition pipeline_inv :: "pipeline \<Rightarrow> bool" where
  "pipeline_inv a \<longleftrightarrow> subseq (pl_stored a @ pl_pending a) (pl_sent a) \<and>
     int (length (pl_sent a)) = int (length (pl_stored a)) + int (length (pl_pending a)) + pl_lost a"

interpretation lossy_queue: step_invariant "\<lambda>a. a = empty_pipeline" pipeline_step pipeline_inv
proof
  fix a a' assume inv: "pipeline_inv a" and step: "pipeline_step a a'"
  from step show "pipeline_inv a'"
  proof cases
    case (send i)
    have "subseq ((pl_stored a @ pl_pending a) @ [i]) (pl_sent a @ [i])"
      using inv by (intro list_emb_append_mono) (simp_all add: pipeline_inv_def)
    with send inv show ?thesis by (simp add: pipeline_inv_def)
  next
    case (lose xs i ys)
    have "subseq (pl_stored a @ xs @ ys) (pl_stored a @ xs @ i # ys)"
      by (intro list_emb_append_mono list_emb_Cons) simp_all
    with lose inv show ?thesis by (auto simp: pipeline_inv_def intro: subseq_order.trans)
  next
    case (store i ys)
    with inv show ?thesis by (simp add: pipeline_inv_def)
  qed
qed (simp add: pipeline_inv_def empty_pipeline_def)

section \<open>The system refines the specification\<close>

definition sent_packets :: "('s, 'm) system \<Rightarrow> Packet list" where
  "sent_packets s = map snd (sv_sent (sy_server s))"

definition stored_items :: "('s, 'm) system \<Rightarrow> Item list" where
  "stored_items s = take (sy_handled s) (ch_out (cv_queue (sy_convert s)))"

definition skipped_total :: "('s, 'm) system \<Rightarrow> int" where
  "skipped_total s = sum_list (map (\<lambda>(_, _, _, skipped, _, _). skipped) (sy_log s)) + cv_skipped (sy_convert s)"

definition pipeline_of :: "panda \<Rightarrow> (int \<Rightarrow> decoder outcome) \<Rightarrow> ('s, 'm) system \<Rightarrow> pipeline" where
  "pipeline_of pa mk s =
     (let q = cv_queue (sy_convert s) in
      \<lparr>pl_sent = decoded_items pa mk (sent_packets s),
       pl_pending = drop (sy_handled s) (ch_out q) @ ch_buf q @ decoded_items pa mk (sv_queue (sy_server s)),
       pl_stored = stored_items s, pl_lost = skipped_total s\<rparr>)"

definition store_ops :: "'s Storage \<Rightarrow> Item list \<Rightarrow> ('s \<Rightarrow> go_error option \<times> 's) list" where
  "store_ops store is = map (\<lambda>i. store (ucast (it_Instance i)) (it_packet i)) is"

definition sys_inv :: "'s Storage \<Rightarrow> 's \<Rightarrow> ('s, 'm) system \<Rightarrow> bool" where
  "sys_inv store w s \<longleftrightarrow>
     (let q = cv_queue (sy_convert s) in
      server_inv (sy_server s) \<and> chan_inv q \<and> sy_handled s \<le> length (ch_out q) \<and>
      (ch_waiting q \<longrightarrow> sy_handled s = length (ch_out q)) \<and>
      (sy_ended s \<longrightarrow> sv_closed (sy_server s) \<and> sv_queue (sy_server s) = []) \<and>
      (sy_returned s \<longrightarrow> sy_ended s \<and> ch_buf q = [] \<and> sy_handled s = length (ch_out q)) \<and>
      li_world (sy_main s) = snd (run_all (store_ops store (stored_items s)) w))"

lemma decoded_items_simps [simp]:
  "decoded_items pa mk [] = []"
  "decoded_items pa mk (p # ps) =
     (case decodes pa mk p of None \<Rightarrow> [] | Some hr \<Rightarrow> [convert_item p hr]) @ decoded_items pa mk ps"
  "decoded_items pa mk (ps @ qs) = decoded_items pa mk ps @ decoded_items pa mk qs"
  by (simp_all add: decoded_items_def)

lemma convert_packet_None:
  "decodes pa mk p = None \<Longrightarrow> cv_queue (convert_packet pa mk p c) = cv_queue c \<and>
     cv_skipped (convert_packet pa mk p c) = cv_skipped c"
  by (simp add: convert_packet_error)

lemma convert_packet_Some:
  assumes "decodes pa mk p = Some hr"
  shows "cv_queue (convert_packet pa mk p c) = snd (try_send (convert_item p hr) (cv_queue c)) \<and>
    cv_skipped (convert_packet pa mk p c) =
      cv_skipped c + (if fst (try_send (convert_item p hr) (cv_queue c)) then 0 else 1)"
proof -
  from convert_packet_ok [OF assms, of c] obtain c' where
    "convert_packet pa mk p c = convert_send p hr c'" "cv_queue c' = cv_queue c" "cv_skipped c' = cv_skipped c" by blast
  then show ?thesis by (cases "try_send (convert_item p hr) (cv_queue c)") (auto simp: convert_send_def split: bool.splits)
qed

lemma convert_tick_queue [simp]: "cv_queue (convert_tick c) = cv_queue c"
  by (simp add: convert_tick_def)

lemma listen_item_world:
  "li_world (listen_item store now i l) = snd (store (ucast (it_Instance i)) (it_packet i) (li_world l))"
  by (simp add: listen_item_def case_prod_beta)

lemma run_all_snoc: "snd (run_all (fs @ [f]) s) = snd (f (snd (run_all fs s)))"
  by (induction fs arbitrary: s) (auto simp: case_prod_beta)

lemma stored_items_handle:
  assumes "sy_handled s < length (ch_out (cv_queue (sy_convert s)))"
  shows "take (Suc (sy_handled s)) (ch_out (cv_queue (sy_convert s))) =
    stored_items s @ [ch_out (cv_queue (sy_convert s)) ! sy_handled s]"
  using assms by (simp add: stored_items_def take_Suc_conv_app_nth)

text \<open>A packet that goes through the conversion: its item stays in the queue of the specification, or is lost.\<close>

lemma convert_pipeline:
  assumes inv: "sys_inv store w s" and queue: "sv_queue (sy_server s) = p # ps"
    and s': "s' = s\<lparr>sy_server := (sy_server s)\<lparr>sv_queue := ps\<rparr>, sy_convert := convert_packet pa mk p (sy_convert s)\<rparr>"
  shows "sys_inv store w s'" "pipeline_of pa mk s' = pipeline_of pa mk s \<or> pipeline_step (pipeline_of pa mk s) (pipeline_of pa mk s')"
proof -
  let ?q = "cv_queue (sy_convert s)"
  have server: "server_inv ((sy_server s)\<lparr>sv_queue := ps\<rparr>)"
    using inv queue by (auto simp: sys_inv_def Let_def server_inv_def sent_by_def still_to_send_def)
  have queue': "\<not> sy_ended s \<and> \<not> sy_returned s" using inv queue by (auto simp: sys_inv_def Let_def)
  have "sys_inv store w s' \<and> (pipeline_of pa mk s' = pipeline_of pa mk s \<or> pipeline_step (pipeline_of pa mk s) (pipeline_of pa mk s'))"
  proof (cases "decodes pa mk p")
    case None
    with convert_packet_None [OF None, of "sy_convert s"] s' inv queue server queue' show ?thesis
      by (simp add: sys_inv_def pipeline_of_def stored_items_def skipped_total_def sent_packets_def Let_def)
  next
    case (Some hr)
    note conv = convert_packet_Some [OF Some, of "sy_convert s"]
    obtain ok q' where q': "try_send (convert_item p hr) ?q = (ok, q')" by fastforce
    show ?thesis
    proof (cases ok)
      case True
      from q' True have "q' = ?q\<lparr>ch_waiting := False, ch_out := ch_out ?q @ [convert_item p hr]\<rparr> \<and> ch_waiting ?q \<or>
          q' = ?q\<lparr>ch_buf := ch_buf ?q @ [convert_item p hr]\<rparr> \<and> \<not> ch_waiting ?q \<and> length (ch_buf ?q) < ch_cap ?q"
        by (auto simp: try_send_def split: if_splits)
      with conv q' True s' inv queue server queue' Some show ?thesis
        by (auto simp: sys_inv_def pipeline_of_def stored_items_def skipped_total_def sent_packets_def Let_def chan_inv_def)
    next
      case False
      with q' have "q' = ?q" by (auto simp: try_send_def split: if_splits)
      with conv q' False s' inv queue server queue' have inv': "sys_inv store w s'"
        by (simp add: sys_inv_def stored_items_def Let_def)
      have "pl_pending (pipeline_of pa mk s) =
          (drop (sy_handled s) (ch_out ?q) @ ch_buf ?q) @ convert_item p hr # decoded_items pa mk ps"
        using queue Some by (simp add: pipeline_of_def Let_def)
      from pipeline_step.lose [OF this] \<open>q' = ?q\<close> conv q' False s' have
        "pipeline_step (pipeline_of pa mk s) (pipeline_of pa mk s')"
        by (simp add: pipeline_of_def stored_items_def skipped_total_def sent_packets_def Let_def add.assoc)
      with inv' show ?thesis by blast
    qed
  qed
  then show "sys_inv store w s'" "pipeline_of pa mk s' = pipeline_of pa mk s \<or> pipeline_step (pipeline_of pa mk s) (pipeline_of pa mk s')"
    by blast+
qed

lemma main_pipeline:
  assumes inv: "sys_inv store w s" and step: "main_step pa mk store s s'"
  shows "sys_inv store w s' \<and> (pipeline_of pa mk s' = pipeline_of pa mk s \<or> pipeline_step (pipeline_of pa mk s) (pipeline_of pa mk s'))"
  using step
proof cases
  case (convert p ps)
  then show ?thesis using convert_pipeline [OF inv, of p ps s'] by blast
next
  case convert_end
  with inv show ?thesis
    by (simp add: sys_inv_def pipeline_of_def stored_items_def skipped_total_def sent_packets_def Let_def)
next
  case (recv q)
  have "chan_inv q" using inv recv by (auto simp: sys_inv_def Let_def)
  with nonblocking.recv_inv nonblocking.recv_contents have "chan_inv (chan_recv q)" "accepted (chan_recv q) = accepted q"
    by blast+
  with recv inv show ?thesis
    by (cases "ch_buf q")
       (auto simp: sys_inv_def pipeline_of_def stored_items_def skipped_total_def sent_packets_def Let_def chan_recv_def)
next
  case (handle q now)
  let ?i = "ch_out q ! sy_handled s"
  have "sys_inv store w s'"
    using handle inv stored_items_handle [of s]
    by (auto simp: sys_inv_def Let_def stored_items_def store_ops_def run_all_snoc listen_item_world)
  moreover have "pl_pending (pipeline_of pa mk s) = ?i # drop (Suc (sy_handled s)) (ch_out q) @ ch_buf q @
      decoded_items pa mk (sv_queue (sy_server s))"
    using handle by (simp add: pipeline_of_def Let_def Cons_nth_drop_Suc)
  from pipeline_step.store [OF this] handle stored_items_handle [of s]
  have "pipeline_step (pipeline_of pa mk s) (pipeline_of pa mk s')"
    by (simp add: pipeline_of_def stored_items_def skipped_total_def sent_packets_def Let_def)
  ultimately show ?thesis by blast
next
  case (return q)
  with inv show ?thesis
    by (simp add: sys_inv_def pipeline_of_def stored_items_def skipped_total_def sent_packets_def Let_def)
qed

text \<open>The steps of the connections: a decodable packet delivered to the queue is sent, the rest is not seen.\<close>

lemma connection_pipeline:
  assumes inv: "sys_inv store w s" and step: "listen_step (sy_server s) sv"
  shows "sys_inv store w (s\<lparr>sy_server := sv\<rparr>) \<and>
    (pipeline_of pa mk (s\<lparr>sy_server := sv\<rparr>) = pipeline_of pa mk s \<or>
     pipeline_step (pipeline_of pa mk s) (pipeline_of pa mk (s\<lparr>sy_server := sv\<rparr>)))"
proof -
  have server: "server_inv sv" using server_inv_step [OF step] inv by (simp add: sys_inv_def Let_def)
  note defs = sys_inv_def pipeline_of_def stored_items_def skipped_total_def sent_packets_def Let_def
  show ?thesis using step
  proof cases
    case (deliver c p ps)
    show ?thesis
    proof (cases "decodes pa mk p")
      case None
      with deliver inv server show ?thesis by (auto simp: defs)
    next
      case (Some hr)
      from pipeline_step.send [of "pipeline_of pa mk s" "convert_item p hr"] deliver inv server Some show ?thesis
        by (auto simp: defs)
    qed
  qed (use inv server in \<open>auto simp: defs\<close>)
qed

lemma skipped_report:
  "sum_list (map (\<lambda>(_, _, _, skipped, _, _). skipped) (report_lines c)) + cv_skipped (convert_tick c) = cv_skipped c"
  by (simp add: report_lines_def convert_tick_def)

lemma sys_pipeline:
  assumes inv: "sys_inv store w s" and step: "sys_step pa mk store ms s s'"
  shows "sys_inv store w s' \<and> (pipeline_of pa mk s' = pipeline_of pa mk s \<or> pipeline_step (pipeline_of pa mk s) (pipeline_of pa mk s'))"
  using step
proof cases
  case (connection sv)
  then show ?thesis using connection_pipeline [OF inv] by blast
next
  case main
  then show ?thesis using main_pipeline [OF inv] by blast
next
  case report
  with inv skipped_report [of "sy_convert s"] show ?thesis
    by (simp add: sys_inv_def pipeline_of_def stored_items_def skipped_total_def sent_packets_def Let_def add.assoc)
qed (use inv in \<open>simp_all add: sys_inv_def pipeline_of_def stored_items_def skipped_total_def sent_packets_def Let_def\<close>)

definition sys_init :: "nat \<Rightarrow> 's listen \<Rightarrow> 'm \<Rightarrow> ('s, 'm) system \<Rightarrow> bool" where
  "sys_init n l m s \<longleftrightarrow> s = new_system n l m"

lemma new_system_inv:
  "sys_inv store (li_world l) (new_system n l m)" "pipeline_of pa mk (new_system n l m) = empty_pipeline"
  using server_inv_init [of n]
  by (simp_all add: sys_inv_def new_system_def new_convert_def make_chan_def chan_inv_def stored_items_def
      store_ops_def pipeline_of_def empty_pipeline_def skipped_total_def sent_packets_def new_server_def Let_def)

interpretation listener: refines "sys_init n l m" "sys_step pa mk store ms" "sys_inv store (li_world l)"
    "\<lambda>a. a = empty_pipeline" pipeline_step "pipeline_of pa mk" for n l m pa mk store ms
proof
  fix s s' assume "sys_inv store (li_world l) s" and "sys_step pa mk store ms s s'"
  from sys_pipeline [OF this] show "sys_inv store (li_world l) s'"
    "pipeline_of pa mk s' = pipeline_of pa mk s \<or> pipeline_step (pipeline_of pa mk s) (pipeline_of pa mk s')" by blast+
qed (simp_all add: sys_init_def new_system_inv)



text \<open>An invariant that the storages keep holds in every state of the listener.\<close>

context invariant_storage
begin

lemma store_ops_safe: "safe w \<Longrightarrow> safe (snd (run_all (store_ops store is) w))"
  by (rule run_all_inv) (auto simp: store_ops_def intro: store_inv)

lemma listener_safe:
  assumes "reachable (sys_init n l m) (sys_step pa mk store ms) s" and "safe (li_world l)"
  shows "safe (li_world (sy_main s))"
  using listener.always [OF assms(1)] store_ops_safe [OF assms(2)] by (simp add: sys_inv_def Let_def)

end

section \<open>The end of the listener\<close>

text \<open>What is left to do when no connection delivers any more, as a number that every step makes smaller.\<close>

definition work_left :: "('s, 'm) system \<Rightarrow> nat" where
  "work_left s =
     (let q = cv_queue (sy_convert s) in
      3 * length (sv_queue (sy_server s)) + 2 * length (ch_buf q) + (length (ch_out q) - sy_handled s) +
      (if ch_waiting q then 0 else 1) + (if sy_ended s then 0 else 1) + (if sy_returned s then 0 else 1))"

lemma convert_packet_work:
  assumes "sv_queue (sy_server s) = p # ps" and "sy_handled s \<le> length (ch_out (cv_queue (sy_convert s)))"
  shows "work_left (s\<lparr>sy_server := (sy_server s)\<lparr>sv_queue := ps\<rparr>, sy_convert := convert_packet pa mk p (sy_convert s)\<rparr>)
    < work_left s"
proof (cases "decodes pa mk p")
  case None
  then show ?thesis using convert_packet_None [OF None, of "sy_convert s"] assms by (simp add: work_left_def Let_def)
next
  case (Some hr)
  then show ?thesis using convert_packet_Some [OF Some, of "sy_convert s"] assms
    by (auto simp: work_left_def Let_def try_send_def)
qed

lemma main_step_shrinks:
  assumes "sys_inv store w s" and "main_step pa mk store s s'"
  shows "work_left s' < work_left s"
  using assms(2)
proof cases
  case (convert p ps)
  then show ?thesis using convert_packet_work [OF convert(2)] assms(1) by (simp add: sys_inv_def Let_def)
next
  case (recv q)
  then show ?thesis by (simp add: work_left_def Let_def chan_recv_def split: list.splits)
qed (use assms(1) in \<open>auto simp: work_left_def Let_def sys_inv_def\<close>)

lemma main_step_closed: "main_step pa mk store s s' \<Longrightarrow> sv_closed (sy_server s') = sv_closed (sy_server s)"
  by (auto elim!: main_stepE)

lemma main_step_progress:
  assumes "sys_inv store w s" and "sv_closed (sy_server s)" and "\<not> sy_returned s"
  shows "\<exists>s'. main_step pa mk store s s'"
proof (cases "sv_queue (sy_server s)")
  case (Cons p ps)
  then show ?thesis using main_step.convert by blast
next
  case Nil
  let ?q = "cv_queue (sy_convert s)"
  show ?thesis
  proof (cases "sy_ended s")
    case False
    then show ?thesis using main_step.convert_end Nil assms(2) by blast
  next
    case True
    consider "sy_handled s < length (ch_out ?q)" | "sy_handled s = length (ch_out ?q)" "ch_buf ?q = []"
      | "sy_handled s = length (ch_out ?q)" "\<not> ch_waiting ?q"
      using assms(1) by (force simp: sys_inv_def Let_def chan_inv_def)
    then show ?thesis
      using main_step.handle [OF refl] main_step.return [OF refl True _ _ assms(3)] main_step.recv [OF refl]
      by cases blast+
  qed
qed

interpretation ending: draining "main_step pa mk store" "\<lambda>s. sys_inv store w s \<and> sv_closed (sy_server s)" work_left sy_returned
  for pa mk store w
proof
  fix s s' assume inv: "sys_inv store w s \<and> sv_closed (sy_server s)" and step: "main_step pa mk store s s'"
  show "sys_inv store w s' \<and> sv_closed (sy_server s')"
    using main_pipeline [OF _ step] main_step_closed [OF step] inv by blast
  show "work_left s' < work_left s" using main_step_shrinks [OF _ step] inv by blast
qed (blast intro: main_step_progress)

lemma returned_drained: "sys_inv store w s \<Longrightarrow> sy_returned s \<Longrightarrow> pl_pending (pipeline_of pa mk s) = []"
  by (simp add: sys_inv_def pipeline_of_def Let_def)

lemma main_steps_reachable:
  assumes "(main_step pa mk store)\<^sup>*\<^sup>* s s'" and "sys_inv store w s"
  shows "(pipeline_step)\<^sup>*\<^sup>* (pipeline_of pa mk s) (pipeline_of pa mk s') \<and> sys_inv store w s' \<and> sent_packets s' = sent_packets s"
  using assms
proof (induction rule: rtranclp_induct)
  case (step t u)
  then have "sent_packets u = sent_packets t" by (auto simp: sent_packets_def elim!: main_stepE)
  with step main_pipeline [of store w t pa mk u] show ?case by (auto intro: rtranclp.rtrancl_into_rtrancl)
qed simp

lemma returned_accounting:
  assumes "reachable (sys_init n l m) (sys_step pa mk store ms) s" and "(main_step pa mk store)\<^sup>*\<^sup>* s s'" and "sy_returned s'"
  shows "int (length (decoded_items pa mk (sent_packets s))) = int (length (stored_items s')) + skipped_total s'"
proof -
  have inv: "sys_inv store (li_world l) s" by (rule listener.always [OF assms(1)])
  note run = main_steps_reachable [OF assms(2) inv]
  have "pipeline_inv (pipeline_of pa mk s')"
    using lossy_queue.along [OF lossy_queue.always [OF listener.reachable_abst [OF assms(1)]]] run by blast
  then show ?thesis using returned_drained [of store "li_world l" s' pa mk] run assms(3)
    by (simp add: pipeline_inv_def) (simp add: pipeline_of_def Let_def)
qed


section \<open>Notifications of the listener\<close>

lemma convert_packet_out:
  "\<exists>xs. ch_out (cv_queue (convert_packet pa mk p c)) = ch_out (cv_queue c) @ xs"
  using convert_packet_None [of pa mk p c] convert_packet_Some [of pa mk p _ c]
  by (cases "decodes pa mk p") (auto simp: try_send_def)

lemma main_step_stored:
  assumes "sys_inv store w s" and "main_step pa mk store s s'"
  shows "stored_items s' = stored_items s \<and> sy_main s' = sy_main s \<or>
    (\<exists>now i. stored_items s' = stored_items s @ [i] \<and> sy_main s' = listen_item store now i (sy_main s))"
  using assms(2)
proof cases
  case (convert p ps)
  then show ?thesis using convert_packet_out [of pa mk p "sy_convert s"] assms(1)
    by (auto simp: stored_items_def sys_inv_def Let_def)
next
  case (recv q)
  then show ?thesis by (auto simp: stored_items_def chan_recv_def split: list.splits)
next
  case (handle q now)
  then show ?thesis using stored_items_handle [of s] by (auto simp: stored_items_def)
qed (simp_all add: stored_items_def)

definition notify_inv :: "('s, 'm) system \<Rightarrow> bool" where
  "notify_inv s \<longleftrightarrow> pool_inv (li_pool (sy_main s)) \<and>
     (\<forall>q. pool_queue (li_pool (sy_main s)) = Some q \<longrightarrow> subseq (accepted q) (stored_items s))"

lemma Pool_Notify_accepted:
  assumes "pool_inv p" and "pool_queue (Pool_Notify now i p) = Some q'"
  shows "\<exists>q. pool_queue p = Some q \<and> (accepted q' = accepted q \<or> accepted q' = accepted q @ [i])"
proof -
  from assms(2) obtain q where q: "pool_queue p = Some q" by (cases "pool_queue p") (auto simp: Pool_Notify_def)
  moreover have "chan_inv q" using pool_inv_queue [OF assms(1) q] by (simp add: queue_ok_def)
  note send = nonblocking.send_ok [OF this, of i] nonblocking.send_full [of i q]
  have "q' = q \<or> q' = snd (try_send i q)" using assms(2) q by (auto simp: Pool_Notify_def split: if_splits)
  then have "accepted q' = accepted q \<or> accepted q' = accepted q @ [i]"
    using send by (cases "try_send i q"; cases "fst (try_send i q)") auto
  ultimately show ?thesis by blast
qed

lemma notify_inv_step:
  assumes inv: "sys_inv store w s" "notify_inv s" and step: "sys_step pa mk store ms s s'"
  shows "notify_inv s'"
  using step
proof cases
  case main
  then consider "stored_items s' = stored_items s" "sy_main s' = sy_main s"
    | now i where "stored_items s' = stored_items s @ [i]" "sy_main s' = listen_item store now i (sy_main s)"
    using main_step_stored [OF inv(1)] by blast
  then show ?thesis
  proof cases
    case (2 now i)
    then have pool: "li_pool (sy_main s') = Pool_Notify now i (li_pool (sy_main s))"
      by (simp add: listen_item_def case_prod_beta)
    have "subseq (accepted q') (stored_items s')" if "pool_queue (Pool_Notify now i (li_pool (sy_main s))) = Some q'" for q'
      using Pool_Notify_accepted [OF _ that] inv(2) 2(1)
      by (auto simp: notify_inv_def intro: list_emb_append_mono subseq_order.trans)
    with pool pool_inv_offer inv(2) show ?thesis by (simp add: notify_inv_def)
  qed (use inv(2) in \<open>simp add: notify_inv_def\<close>)
next
  case (pool_recv q i rest)
  then have "accepted (chan_recv q) = accepted q"
    using nonblocking.recv_contents pool_inv_queue inv(2) by (auto simp: notify_inv_def queue_ok_def)
  with pool_recv pool_inv_receive [of "li_pool (sy_main s)" q i rest] inv(2) show ?thesis
    by (auto simp: notify_inv_def stored_items_def pool_receive_def)
next
  case (pool_ticks ks)
  have "pool_queue (pool_tick ks p) = pool_queue p" for p
    unfolding pool_tick_def by (induction ks arbitrary: p) (simp_all add: emit_key_def)
  with pool_ticks inv(2) show ?thesis by (simp add: notify_inv_def stored_items_def pool_inv_tick)
qed (use inv(2) in \<open>auto simp: notify_inv_def stored_items_def\<close>)

lemma notify_inv_reachable:
  assumes "reachable (sys_init n l m) (sys_step pa mk store ms) s" and "li_pool l = NewPool a e"
  shows "notify_inv s"
  using assms
proof (induction rule: reachable_induct)
  case (init s)
  have "pool_queue (NewPool a e) = Some q \<Longrightarrow> accepted q = []" for q by (auto simp: NewPool_def split: if_splits)
  with init show ?case by (simp add: sys_init_def new_system_def notify_inv_def pool_inv_NewPool)
next
  case (step s s')
  show ?case by (rule notify_inv_step [OF listener.always [OF step.hyps(1)] step.IH [OF step.prems] step.hyps(2)])
qed

lemma batch_of_received:
  assumes "pool_inv p" and "(k, ps) \<in> set (pool_batches p)" and "x \<in> set ps"
  shows "\<exists>q i. pool_queue p = Some q \<and> i \<in> set (accepted q) \<and> item_key i = k \<and> it_packet i = x"
proof -
  have "x \<in> set (reported p k)" using assms(2,3) by (force simp: reported_def)
  then have "x \<in> set (received p k)" using pool_inv_received [OF assms(1)] by simp
  then show ?thesis by (cases "pool_queue p") (auto simp: received_def accepted_def)
qed


section \<open>A run\<close>

text \<open>One connection that has delivered one packet, for every packet and whatever becomes of it.\<close>

lemma reachable_connection:
  assumes "reachable I (sys_step pa mk store ms) s" and "running s" and "listen_step (sy_server s) sv"
  shows "reachable I (sys_step pa mk store ms) (s\<lparr>sy_server := sv\<rparr>)"
  by (rule reachable_step [OF assms(1)]) (rule sys_step.connection [OF assms(2,3)])

definition delivered_server :: "Packet \<Rightarrow> server" where
  "delivered_server p = (new_server 0)\<lparr>sv_next := 1, sv_conns := [0 \<mapsto> []], sv_offered := [0 \<mapsto> [p]], sv_queue := [p],
     sv_sent := [(0, p)]\<rparr>"

lemma delivered_reachable:
  "reachable (sys_init 0 l m) (sys_step pa mk store ms) ((new_system 0 l m)\<lparr>sy_server := delivered_server p\<rparr>)"
proof -
  let ?r = "reachable (sys_init 0 l m) (sys_step pa mk store ms)"
  let ?v = "(new_server 0)\<lparr>sv_next := 1, sv_conns := [0 \<mapsto> [p]], sv_offered := [0 \<mapsto> [p]]\<rparr>"
  let ?s1 = "(new_system 0 l m)\<lparr>sy_server := ?v\<rparr>"
  have "?r (new_system 0 l m)" by (simp add: reachable_init sys_init_def)
  then have "?r ?s1"
    by (rule reachable_connection)
       (use listen_step.accept [of "new_server 0" "[p]"] in \<open>simp_all add: running_def new_system_def new_server_def\<close>)
  then have "?r (?s1\<lparr>sy_server := delivered_server p\<rparr>)"
    by (rule reachable_connection)
       (use listen_step.deliver [of ?v 0 p "[]"] in \<open>simp_all add: running_def new_system_def new_server_def delivered_server_def\<close>)
  then show ?thesis by simp
qed

definition sample_listen :: "nat listen" where
  "sample_listen = \<lparr>li_world = 0, li_pool = NewPool 0 0, li_modules = None, li_logged = 0\<rparr>"

definition sample_decoder :: "int \<Rightarrow> decoder outcome" where
  "sample_decoder v = Inr (\<lambda>_. Inr sample_table)"

abbreviation count_store :: "nat Storage" where
  "count_store i p w \<equiv> (None, Suc w)"

definition sample_vmu_packet :: Packet where
  "sample_vmu_packet = new_Packet\<lparr>pk_Version := 2, pk_Instance := 255\<rparr>"

definition sample_system :: "(nat, unit) system" where
  "sample_system = (new_system 0 sample_listen ())\<lparr>sy_server := delivered_server sample_vmu_packet\<rparr>"

lemmas sample_system_reachable =
  delivered_reachable [of sample_listen "()" sample_panda sample_decoder count_store "[]" sample_vmu_packet,
    folded sample_system_def]

lemma sample_closed_reachable:
  "reachable (sys_init 0 sample_listen ()) (sys_step sample_panda sample_decoder count_store [])
     (sample_system\<lparr>sy_server := (sy_server sample_system)\<lparr>sv_closed := True\<rparr>\<rparr>)"
proof -
  have "\<not> sv_closed (sy_server sample_system)" "running sample_system"
    by (simp_all add: running_def sample_system_def new_system_def delivered_server_def new_server_def)
  then show ?thesis by (intro reachable_connection [OF sample_system_reachable] listen_step.fails)
qed



lemma reachable_main:
  assumes "reachable I (sys_step pa mk store ms) s" and "running s" and "main_step pa mk store s s'"
  shows "reachable I (sys_step pa mk store ms) s'"
  by (rule reachable_step [OF assms(1)]) (rule sys_step.main [OF assms(2,3)])

lemma handled_reachable:
  assumes dec: "decodes pa mk p = Some hr"
  shows "\<exists>s. reachable (sys_init 0 l m) (sys_step pa mk store ms) s \<and> running s \<and>
    sy_main s = listen_item store now (convert_item p hr) l \<and> pl_pending (pipeline_of pa mk s) = [] \<and> skipped_total s = 0 \<and>
    sv_offered (sy_server s) = [0 \<mapsto> [p]] \<and> sv_conns (sy_server s) = [0 \<mapsto> []]"
proof -
  let ?r = "reachable (sys_init 0 l m) (sys_step pa mk store ms)"
  let ?s1 = "(new_system 0 l m)\<lparr>sy_server := delivered_server p\<rparr>"
  let ?q1 = "make_chan 0 :: Item gochan"
  let ?s2 = "?s1\<lparr>sy_convert := (new_convert 0)\<lparr>cv_queue := chan_recv ?q1\<rparr>\<rparr>"
  let ?c3 = "convert_packet pa mk p (sy_convert ?s2)"
  let ?s3 = "?s2\<lparr>sy_server := (delivered_server p)\<lparr>sv_queue := []\<rparr>, sy_convert := ?c3\<rparr>"
  have run: "running ?s1" "running ?s2" "running ?s3"
    by (simp_all add: running_def new_system_def delivered_server_def new_server_def)
  have "?r ?s2"
    by (rule reachable_main [OF delivered_reachable [of l m] run(1)])
       (use main_step.recv [OF refl, of ?s1] in \<open>simp add: new_system_def new_convert_def make_chan_def\<close>)
  then have r3: "?r ?s3"
    by (rule reachable_main [OF _ run(2)])
       (use main_step.convert [of ?s2 p "[]"] in \<open>simp add: new_system_def delivered_server_def\<close>)
  have out: "ch_out (cv_queue ?c3) = [convert_item p hr]" "ch_buf (cv_queue ?c3) = []" "cv_skipped ?c3 = 0"
    using convert_packet_Some [OF dec, of "sy_convert ?s2"]
    by (simp_all add: try_send_def chan_recv_def make_chan_def new_convert_def)
  let ?s4 = "?s3\<lparr>sy_main := listen_item store now (convert_item p hr) (sy_main ?s3), sy_handled := 1\<rparr>"
  have "main_step pa mk store ?s3 ?s4"
    using main_step.handle [OF refl, of ?s3 pa mk store now] out by (simp add: new_system_def)
  from reachable_main [OF r3 run(3) this] have "?r ?s4" .
  moreover have "running ?s4" using run(3) by (simp add: running_def)
  ultimately show ?thesis using out
    by (intro exI [of _ ?s4]) (simp add: new_system_def delivered_server_def new_server_def pipeline_of_def skipped_total_def)
qed

abbreviation notified_listen :: "nat listen" where
  "notified_listen \<equiv> sample_listen\<lparr>li_pool := NewPool 0 1\<rparr>"

lemma sample_item_converted:
  "decodes sample_panda sample_decoder sample_vmu_packet = Some sample_table"
  "convert_item sample_vmu_packet sample_table = sample_item"
  by (simp_all add: sample_vmu_packet_def decodes_def decoder_for_def sample_decoder_def sample_panda_def sample_table_def
      convert_item_def sample_item_def)

lemma sample_handled:
  "\<exists>s. reachable (sys_init 0 notified_listen ()) (sys_step sample_panda sample_decoder count_store []) s \<and> running s \<and>
     li_pool (sy_main s) = Pool_Notify zero_time sample_item (NewPool 0 1)"
proof -
  have "li_pool (listen_item count_store zero_time sample_item notified_listen) = Pool_Notify zero_time sample_item (NewPool 0 1)"
    by (simp add: listen_item_def)
  then show ?thesis
    using handled_reachable [OF sample_item_converted(1), of notified_listen "()" count_store "[]" zero_time]
    by (metis sample_item_converted(2))
qed

lemma sample_notified:
  "\<exists>s. reachable (sys_init 0 notified_listen ()) (sys_step sample_panda sample_decoder count_store []) s \<and>
     li_pool (sy_main s) = sample_run"
proof -
  obtain s where s: "reachable (sys_init 0 notified_listen ()) (sys_step sample_panda sample_decoder count_store []) s" "running s"
    "li_pool (sy_main s) = Pool_Notify zero_time sample_item (NewPool 0 1)" using sample_handled by blast
  let ?s1 = "s\<lparr>sy_main := (sy_main s)\<lparr>li_pool := pool_receive sample_item
    ((li_pool (sy_main s))\<lparr>pool_queue := Some (chan_recv sample_queue)\<rparr>)\<rparr>\<rparr>"
  have "pool_queue (li_pool (sy_main s)) = Some sample_queue" "ch_buf sample_queue = [sample_item]"
    using s(3) by (simp_all add: Pool_Notify_def NewPool_def sample_item_def sample_table_def too_old_def sample_queue_def
        try_send_def make_chan_def)
  from reachable_step [OF s(1) sys_step.pool_recv [OF s(2) this]]
  have r: "reachable (sys_init 0 notified_listen ()) (sys_step sample_panda sample_decoder count_store []) ?s1" .
  have "running ?s1" using s(2) by (simp add: running_def)
  moreover have "set [item_key sample_item] = dom (pool_cache (li_pool (sy_main ?s1)))"
    using s(3) by (simp add: pool_receive_def) (simp add: NewPool_def)
  ultimately have "sys_step sample_panda sample_decoder count_store [] ?s1
      (?s1\<lparr>sy_main := (sy_main ?s1)\<lparr>li_pool := pool_tick [item_key sample_item] (li_pool (sy_main ?s1))\<rparr>\<rparr>)" (is "sys_step _ _ _ _ _ ?s2")
    by (intro sys_step.pool_ticks) simp_all
  from reachable_step [OF r this] show ?thesis
    by (rule exI [of _ ?s2, OF conjI]) (simp add: sample_run_def s(3))
qed



section \<open>A listener with one connection\<close>

lemma single_connection_sent:
  assumes "server_inv s" and "dom (sv_offered s) = {c}"
  shows "map snd (sv_sent s) = sent_by s c"
proof -
  have "fst x = c" if "x \<in> set (sv_sent s)" for x
  proof (rule ccontr)
    assume "fst x \<noteq> c"
    then have "sv_offered s (fst x) = None" using assms(2) by (auto simp: domIff)
    then have "sent_by s (fst x) = []" using assms(1) by (simp add: server_inv_def)
    with that show False by (auto simp: sent_by_def filter_empty_conv)
  qed
  then have "filter (\<lambda>x. fst x = c) (sv_sent s) = sv_sent s" by (simp add: filter_id_conv)
  then show ?thesis by (simp add: sent_by_def)
qed

text \<open>Everything of a single connection is stored when nothing was skipped and nothing waits any more.\<close>

lemma single_connection_stored:
  assumes "reachable (sys_init n l m) (sys_step pa mk store ms) s"
    and "sv_offered (sy_server s) = [c \<mapsto> ps]" and "still_to_send (sy_server s) c = []"
    and "pl_pending (pipeline_of pa mk s) = []" and "skipped_total s = 0"
  shows "stored_items s = decoded_items pa mk ps"
proof -
  have inv: "server_inv (sy_server s)" using listener.always [OF assms(1)] by (simp add: sys_inv_def Let_def)
  then have "sent_by (sy_server s) c = ps" using assms(2,3) unfolding server_inv_def by (metis append_Nil2 fun_upd_same)
  with single_connection_sent [OF inv, of c] assms(2) have sent: "sent_packets s = ps" by (simp add: sent_packets_def)
  have "pipeline_inv (pipeline_of pa mk s)" by (rule lossy_queue.always [OF listener.reachable_abst [OF assms(1)]])
  then have "subseq (stored_items s) (decoded_items pa mk ps)" "length (stored_items s) = length (decoded_items pa mk ps)"
    using assms(4,5) sent by (simp_all add: pipeline_inv_def pipeline_of_def Let_def)
  then show ?thesis by (rule subseq_same_length)
qed

end
