(* ===== verification/Proxy.thy ===== *)
theory Proxy
  imports Go_Reader Transition
begin

text \<open>
  The writers that copy the incoming bytes to another host: the proxy of \<^verbatim>\<open>src/proxy.go\<close>, which may
  compress and reconnects inside \<^verbatim>\<open>Write\<close>, and the one of \<^verbatim>\<open>src/cascading/proxy.go\<close>, which
  reconnects in a goroutine and discards what is written meanwhile. The network decides the
  outcome of every write and of every attempt to connect.
\<close>

section \<open>Compressing proxy\<close>

text \<open>What goes over a connection: plain bytes, or bytes compressed and flushed.\<close>

datatype chunk = Plain bytes | Gzipped bytes

record proxy =
  px_conn :: nat
  px_level :: int
  px_gzip :: bool
  px_wire :: "(nat \<times> chunk) list"

datatype write_result = WriteOk | WriteTemporary | WritePermanent

definition DialProxy :: "nat outcome \<Rightarrow> string \<Rightarrow> proxy outcome" where
  "DialProxy dial e =
     (case dial of
        Inl err \<Rightarrow> Inl err
      | Inr c \<Rightarrow>
          let p = \<lparr>px_conn = c, px_level = 0, px_gzip = False, px_wire = []\<rparr> in
          Inr (if e = ''no'' then p\<lparr>px_level := 0, px_gzip := True\<rparr>
               else if e = ''speed'' then p\<lparr>px_level := 1, px_gzip := True\<rparr>
               else if e = ''best'' then p\<lparr>px_level := 9, px_gzip := True\<rparr>
               else if e = ''default'' then p\<lparr>px_level := -1, px_gzip := True\<rparr>
               else p))"

text \<open>
  After a permanent error the proxy connects again. The new writer is the connection itself,
  which has no method \<^verbatim>\<open>Flush\<close>, so that the test for a compressing writer always fails. The result is
  the number of bytes given and no error.
\<close>

definition proxy_Write :: "write_result \<Rightarrow> nat option \<Rightarrow> bytes \<Rightarrow> proxy \<Rightarrow> (nat \<times> go_error option) \<times> proxy" where
  "proxy_Write res redial bs p =
     ((length bs, None),
      (case res of
         WriteOk \<Rightarrow> p\<lparr>px_wire := px_wire p @ [(px_conn p, if px_gzip p then Gzipped bs else Plain bs)]\<rparr>
       | WriteTemporary \<Rightarrow> p
       | WritePermanent \<Rightarrow>
           (case redial of
              None \<Rightarrow> p
            | Some c \<Rightarrow> p\<lparr>px_conn := c, px_gzip := False\<rparr>)))"

fun proxy_run :: "(write_result \<times> nat option \<times> bytes) list \<Rightarrow> proxy \<Rightarrow> proxy" where
  "proxy_run [] p = p"
| "proxy_run ((res, redial, bs) # ws) p = proxy_run ws (snd (proxy_Write res redial bs p))"

section \<open>Cascading proxy\<close>

record cascade =
  ca_conn :: nat
  ca_discard :: bool
  ca_dialing :: nat
  ca_sent :: "(nat \<times> bytes) list"
  ca_lost :: "bytes list"

definition cascading_Proxy :: "(string \<Rightarrow> go_error option) \<Rightarrow> (string \<Rightarrow> nat outcome) \<Rightarrow> string \<Rightarrow> cascade outcome" where
  "cascading_Proxy SplitHostPort dial addr =
     (case SplitHostPort addr of
        Some e \<Rightarrow> Inl e
      | None \<Rightarrow>
          (case dial addr of
             Inl e \<Rightarrow> Inl e
           | Inr c \<Rightarrow> Inr \<lparr>ca_conn = c, ca_discard = False, ca_dialing = 0, ca_sent = [], ca_lost = []\<rparr>))"

text \<open>A write under the lock: to the connection, which may fail, or to the discarding writer, which does not.\<close>

definition cascade_Write :: "bool \<Rightarrow> bytes \<Rightarrow> cascade \<Rightarrow> (nat \<times> go_error option) \<times> cascade" where
  "cascade_Write failing bs c =
     ((length bs, None),
      (if ca_discard c then c\<lparr>ca_lost := ca_lost c @ [bs]\<rparr>
       else if failing then
         c\<lparr>ca_discard := True, ca_dialing := ca_dialing c + 1, ca_lost := ca_lost c @ [bs]\<rparr>
       else c\<lparr>ca_sent := ca_sent c @ [(ca_conn c, bs)]\<rparr>))"

text \<open>One attempt of a reconnecting goroutine.\<close>

definition reconnect_attempt :: "nat option \<Rightarrow> cascade \<Rightarrow> cascade" where
  "reconnect_attempt x c =
     (case x of
        None \<Rightarrow> c
      | Some n \<Rightarrow> c\<lparr>ca_conn := n, ca_discard := False, ca_dialing := ca_dialing c - 1\<rparr>)"

inductive cascade_step :: "cascade \<Rightarrow> cascade \<Rightarrow> bool" where
  put: "cascade_step c (snd (cascade_Write failing bs c))"
| attempt: "0 < ca_dialing c \<Longrightarrow> cascade_step c (reconnect_attempt x c)"

inductive_cases cascade_stepE: "cascade_step c c'"

text \<open>
  \<^verbatim>\<open>io.TeeReader\<close>: what is read is written to the copy first, and an error of that write is returned
  to the reader.
\<close>

fun tee_reads :: "(bytes \<Rightarrow> 's \<Rightarrow> (nat \<times> go_error option) \<times> 's) \<Rightarrow> bytes list \<Rightarrow> 's \<Rightarrow> (bytes list \<times> go_error option) \<times> 's" where
  "tee_reads w [] s = (([], None), s)"
| "tee_reads w (c # cs) s =
     (case w c s of
        ((_, Some e), s) \<Rightarrow> (([c], Some e), s)
      | ((_, None), s) \<Rightarrow> (case tee_reads w cs s of ((ds, e), s) \<Rightarrow> ((c # ds, e), s)))"

section \<open>Properties\<close>

lemma proxy_run_plain: "\<not> px_gzip p \<Longrightarrow> \<not> px_gzip (proxy_run ws p) \<and>
    (\<exists>new. px_wire (proxy_run ws p) = px_wire p @ new \<and> (\<forall>(c, x)\<in>set new. \<exists>bs. x = Plain bs))"
proof (induction ws arbitrary: p)
  case (Cons w ws)
  obtain res redial bs where w: "w = (res, redial, bs)" by (metis prod_cases3)
  define p1 where "p1 = snd (proxy_Write res redial bs p)"
  have p1: "\<not> px_gzip p1" "px_wire p1 = px_wire p \<or> px_wire p1 = px_wire p @ [(px_conn p, Plain bs)]"
    using Cons.prems by (auto simp: p1_def proxy_Write_def split: write_result.splits option.splits)
  from Cons.IH [OF p1(1)] obtain new where "\<not> px_gzip (proxy_run ws p1)" "px_wire (proxy_run ws p1) = px_wire p1 @ new"
    "\<forall>(c, x)\<in>set new. \<exists>bs. x = Plain bs" by blast
  with p1(2) show ?case by (auto simp: w p1_def [symmetric])
qed simp

text \<open>
  A compressing proxy that had to reconnect once never compresses again: everything it sends
  after that, on the new and on every later connection, is plain, though its peer was set up for compressed data.
\<close>

theorem proxy_reconnect_loses_compression:
  assumes "p' = snd (proxy_Write WritePermanent (Some c) bs p)"
  shows "px_conn p' = c \<and> px_level p' = px_level p \<and>
    (\<exists>new. px_wire (proxy_run ws p') = px_wire p @ new \<and> (\<forall>(d, x)\<in>set new. \<exists>bs. x = Plain bs))"
  using proxy_run_plain [of p' ws] assms by (simp add: proxy_Write_def)

theorem proxy_reconnect_loses_compression_witness:
  "\<exists>p p'. DialProxy (Inr 1) ''best'' = Inr p \<and> p' = snd (proxy_Write WritePermanent (Some 2) [7] p) \<and>
     px_conn p' = 2 \<and> px_level p' = 9 \<and>
     (\<exists>new. px_wire (proxy_run [(WriteOk, None, [8])] p') = px_wire p @ new \<and> (\<forall>(d, x)\<in>set new. \<exists>bs. x = Plain bs))"
proof -
  define p where "p = \<lparr>px_conn = 1, px_level = 9, px_gzip = True, px_wire = []\<rparr>"
  have "DialProxy (Inr 1) ''best'' = Inr p" by (simp add: DialProxy_def p_def)
  moreover have "px_level p = 9" by (simp add: p_def)
  ultimately show ?thesis
    using proxy_reconnect_loses_compression [OF refl, of 2 "[7]" p "[(WriteOk, None, [8])]"] by auto
qed

definition cascade_inv :: "cascade \<Rightarrow> bool" where
  "cascade_inv c \<longleftrightarrow> ca_dialing c = (if ca_discard c then 1 else 0)"

interpretation cascading: step_invariant "\<lambda>c. cascading_Proxy sp dial addr = Inr c" cascade_step cascade_inv for sp dial addr
proof
  show "cascading_Proxy sp dial addr = Inr c \<Longrightarrow> cascade_inv c" for c
    by (auto simp: cascading_Proxy_def cascade_inv_def split: option.splits sum.splits)
  show "cascade_inv c \<Longrightarrow> cascade_step c c' \<Longrightarrow> cascade_inv c'" for c c'
    by (erule cascade_stepE) (auto simp: cascade_inv_def cascade_Write_def reconnect_attempt_def split: option.splits if_splits)
qed

lemma tee_reads_transparent:
  assumes "\<And>bs s. snd (fst (w bs s)) = None"
  shows "fst (tee_reads w cs s) = (cs, None) \<and> snd (tee_reads w cs s) = fold (\<lambda>c s. snd (w c s)) cs s"
proof (induction cs arbitrary: s)
  case (Cons c cs)
  obtain n s1 where "w c s = ((n, None), s1)" using assms [of c s] by (metis prod.collapse)
  with Cons [of s1] show ?case by (cases "tee_reads w cs s1") auto
qed simp

text \<open>
  C27. A failing proxy never disturbs the listener: with the cascading proxy as the copy of the
  reader, the listener reads exactly the bytes of its connection and no error, however the network behaves; every piece
  of data is either sent or counted as lost; and in every reachable state at most one goroutine is
  reconnecting, namely while the written data is discarded.
\<close>

theorem cascade_transparent:
  assumes "cascading_Proxy sp dial addr = Inr c0"
  shows "fst (tee_reads (\<lambda>bs (fs, c). (fst (cascade_Write (hd fs) bs c), (tl fs, snd (cascade_Write (hd fs) bs c)))) cs (fs, c)) = (cs, None) \<and>
    length (ca_sent (snd (cascade_Write failing bs c))) + length (ca_lost (snd (cascade_Write failing bs c))) =
      Suc (length (ca_sent c) + length (ca_lost c)) \<and>
    (cascade_step\<^sup>*\<^sup>* c0 c \<longrightarrow> ca_dialing c = (if ca_discard c then 1 else 0))"
proof -
  have "cascade_step\<^sup>*\<^sup>* c0 c \<longrightarrow> cascade_inv c" using cascading.starts [OF assms] cascading.along by blast
  moreover have "fst (tee_reads (\<lambda>bs (fs, c). (fst (cascade_Write (hd fs) bs c), (tl fs, snd (cascade_Write (hd fs) bs c)))) cs (fs, c)) = (cs, None)"
    by (rule tee_reads_transparent [THEN conjunct1]) (auto simp: cascade_Write_def)
  moreover have "length (ca_sent (snd (cascade_Write failing bs c))) + length (ca_lost (snd (cascade_Write failing bs c))) =
      Suc (length (ca_sent c) + length (ca_lost c))"
    by (simp add: cascade_Write_def)
  ultimately show ?thesis by (simp add: cascade_inv_def)
qed

theorem cascade_transparent_witness:
  "\<exists>c0. cascading_Proxy (\<lambda>_. None) (\<lambda>_. Inr 3) ''host:1'' = Inr c0 \<and>
     fst (tee_reads (\<lambda>bs (fs, c). (fst (cascade_Write (hd fs) bs c), (tl fs, snd (cascade_Write (hd fs) bs c))))
       [[1], [2, 3]] ([True, False], c0)) = ([[1], [2, 3]], None)"
proof -
  obtain c0 where "cascading_Proxy (\<lambda>_. None) (\<lambda>_. Inr 3) ''host:1'' = Inr c0" by (simp add: cascading_Proxy_def)
  then show ?thesis using cascade_transparent by blast
qed

end
