(* ===== verification/Run_Listen.thy ===== *)
theory Run_Listen
  imports Listener Proxy
begin

text \<open>
  The start of the listener (\<^verbatim>\<open>runListen\<close> of \<^verbatim>\<open>src/cmd/hadock/listen.go\<close>): the configuration, the steps
  of the set-up with their early returns, the storages it builds as one storage over the file system and
  their rolling files, and the bytes of a connection behind the cascading proxy. The command line, the parser of the
  configuration file, package roll, the plugins and the network are parameters.
\<close>

section \<open>Configuration\<close>

record proxy_config =
  px_Addr :: string
  px_Size :: int

record listen_config =
  lc_Addr :: string
  lc_Mode :: string
  lc_Buffer :: nat
  lc_Proxy :: proxy_config
  lc_Instances :: "uint8 list"
  lc_Stores :: "Filestore.Options list"
  lc_Pool :: pool_config
  lc_Modules :: "module list"

section \<open>Metadata of images\<close>

text \<open>
  The element given to the XML encoder \<open>enc\<close>; \<open>image_xml\<close> is the call for a packet whose type assertion
  succeeded, the only ones for which the storages make it.
\<close>

record image_metadata =
  im_Version :: int
  im_When :: gotime
  im_IDH :: IDH

definition encodeMetadata :: "(image_metadata \<Rightarrow> bytes outcome) \<Rightarrow> HRPacket \<Rightarrow> IDH \<Rightarrow> bytes outcome" where
  "encodeMetadata enc p h = enc \<lparr>im_Version = hr_Version p, im_When = vh_Timestamp (hr_VMUHeader p), im_IDH = h\<rparr>"

definition image_xml :: "(image_metadata \<Rightarrow> bytes outcome) \<Rightarrow> HRPacket \<Rightarrow> bytes outcome" where
  "image_xml enc p =
     (case hr_kind p of Image h \<Rightarrow> encodeMetadata enc p h | _ \<Rightarrow> Inl (GoPanic ''nil pointer dereference''))"

section \<open>The storages that were built\<close>

text \<open>
  A storage that was built keeps its own state (rolling files), beside the file system. \<open>en_write\<close> is the method
  \<^verbatim>\<open>Write\<close> of a roller and \<open>en_Now k\<close> the time the clock shows when it is read for the \<open>k\<close>-th time.
\<close>

record 'r store_env =
  en_panda :: panda
  en_timutil :: timutil
  en_roll :: "'r roll"
  en_write :: "'r \<Rightarrow> bytes \<Rightarrow> fs \<Rightarrow> go_error option \<times> 'r \<times> fs"
  en_xml :: "image_metadata \<Rightarrow> bytes outcome"
  en_Now :: "nat \<Rightarrow> gotime"

record 'r store_world =
  sw_stores :: "'r built_store list"
  sw_fs :: fs
  sw_clock :: nat

definition built_Store ::
  "'r store_env \<Rightarrow> gotime \<Rightarrow> 'r built_store \<Rightarrow> uint8 \<Rightarrow> HRPacket \<Rightarrow> fs \<Rightarrow> go_error option \<times> 'r built_store \<times> fs" where
  "built_Store en now b i p f =
     (case b of
        BuiltRecords d fmt w \<Rightarrow>
          (case hrdpstore_Store (en_panda en) (en_timutil en) now fmt (\<lambda>bs (w, f). en_write en w bs f) i p (w, f) of
             (e, w, f) \<Rightarrow> (e, BuiltRecords d fmt w, f))
      | BuiltArchive t \<Rightarrow>
          (case tarstore_Store (en_panda en) (en_roll en) (image_xml (en_xml en)) i p (t, f) of (e, t, f) \<Rightarrow> (e, BuiltArchive t, f))
      | BuiltFiles s \<Rightarrow>
          (case filestore_Store (en_panda en) (image_xml (en_xml en)) s i p f of (e, f) \<Rightarrow> (e, BuiltFiles s, f)))"

definition slot_Store :: "'r store_env \<Rightarrow> nat \<Rightarrow> 'r store_world Storage" where
  "slot_Store en k i p w =
     (case built_Store en (en_Now en (sw_clock w)) (sw_stores w ! k) i p (sw_fs w) of
        (e, b, f) \<Rightarrow> (e, w\<lparr>sw_stores := (sw_stores w)[k := b], sw_fs := f, sw_clock := sw_clock w + 1\<rparr>))"

definition listen_Storage :: "'r store_env \<Rightarrow> nat \<Rightarrow> 'r store_world Storage" where
  "listen_Storage en n = Multistore (map (slot_Store en) [0..<n])"

section \<open>Set-up\<close>

record ('r, 'm) listen_env =
  le_Flag :: "string list \<Rightarrow> string outcome"
  le_toml :: "bytes \<Rightarrow> listen_config outcome"
  le_roll :: "'r roll"
  le_dial :: "string \<Rightarrow> go_error option"
  le_create :: "string \<Rightarrow> go_error option"
  le_Listen :: "string \<Rightarrow> go_error option"
  le_plugins :: "'m plugins"

record ('r, 'm) started =
  st_config :: listen_config
  st_decode :: decodeFunc
  st_stores :: "'r built_store list"
  st_pool :: "(notifier_kind list \<times> Pool) option"
  st_modules :: "'m list option"

text \<open>The part of the set-up after the storages: pool, decoder, socket and modules, in this order.\<close>

definition listen_services ::
  "('r, 'm) listen_env \<Rightarrow> listen_config \<Rightarrow> 'r built_store list \<Rightarrow> ('r, 'm) started outcome" where
  "listen_services en c ss =
     (case setupPool (le_dial en) (le_create en) (lc_Pool c) of
        (_, Some e) \<Rightarrow> Inl e
      | (pool, None) \<Rightarrow>
          (case Decode (lc_Mode c) of
             Inl e \<Rightarrow> Inl e
           | Inr df \<Rightarrow>
               (case ListenPackets (le_Listen en) (lc_Addr c) (lc_Buffer c) of
                  Inl e \<Rightarrow> Inl e
                | Inr sv \<Rightarrow>
                    if 0 < length (lc_Modules c) then
                      (case setupModules (le_plugins en) (lc_Modules c) of
                         Inl e \<Rightarrow> Inl e
                       | Inr ms \<Rightarrow> Inr \<lparr>st_config = c, st_decode = df, st_stores = ss, st_pool = pool, st_modules = Some ms\<rparr>)
                    else Inr \<lparr>st_config = c, st_decode = df, st_stores = ss, st_pool = pool, st_modules = None\<rparr>)))"

definition runListen :: "('r, 'm) listen_env \<Rightarrow> string list \<Rightarrow> fs \<Rightarrow> ('r, 'm) started outcome \<times> fs" where
  "runListen en args f =
     (case le_Flag en args of
        Inl e \<Rightarrow> (Inl e, f)
      | Inr name \<Rightarrow>
          (case read_config (le_toml en) name f of
             Inl e \<Rightarrow> (Inl e, f)
           | Inr c \<Rightarrow>
               (case setupStorage (le_roll en) (lc_Stores c) f of
                  (Inl e, f) \<Rightarrow> (Inl e, f)
                | (Inr ss, f) \<Rightarrow> (listen_services en c ss, f))))"

text \<open>
  The system that a successful set-up starts: the queues have the capacity of the configuration, and there is a
  queue for the modules when there are any. A nil pool panics with the first item, see \<open>notify_pool\<close>.
\<close>

definition started_listen :: "('r, 'm) started \<Rightarrow> fs \<Rightarrow> 'r store_world listen option" where
  "started_listen st f =
     map_option (\<lambda>(_, p). \<lparr>li_world = \<lparr>sw_stores = st_stores st, sw_fs = f, sw_clock = 0\<rparr>, li_pool = p,
         li_modules = map_option (\<lambda>_. make_chan (lc_Buffer (st_config st))) (st_modules st), li_logged = 0\<rparr>)
       (st_pool st)"

section \<open>The bytes of a connection\<close>

text \<open>
  What the decoder of a connection reads: when the cascading proxy can be reached, its bytes are copied to
  it. \<open>fs\<close> are the outcomes of the writes to the proxy.
\<close>

definition connection_reads :: "cascade outcome \<Rightarrow> bool list \<Rightarrow> bytes list \<Rightarrow> bytes list \<times> go_error option" where
  "connection_reads px fs cs =
     (case px of
        Inl _ \<Rightarrow> (cs, None)
      | Inr c \<Rightarrow>
          fst (tee_reads (\<lambda>bs (fs, c). (fst (cascade_Write (hd fs) bs c), (tl fs, snd (cascade_Write (hd fs) bs c)))) cs (fs, c)))"

lemma connection_reads_all: "connection_reads px fs cs = (cs, None)"
proof (cases px)
  case (Inr c)
  have "fst (tee_reads (\<lambda>bs (fs, c). (fst (cascade_Write (hd fs) bs c), (tl fs, snd (cascade_Write (hd fs) bs c)))) cs (fs, c)) =
      (cs, None)"
    by (rule tee_reads_transparent [THEN conjunct1]) (auto simp: cascade_Write_def)
  with Inr show ?thesis by (simp add: connection_reads_def)
qed (simp add: connection_reads_def)

section \<open>What the set-up and the storages do to the file system\<close>

text \<open>
  Package roll is only known to call the functions it is given: \<open>roll_keeps\<close> says that it keeps a property of the
  file system that those functions keep.
\<close>

definition roll_keeps :: "(fs \<Rightarrow> bool) \<Rightarrow> 'r roll \<Rightarrow> bool" where
  "roll_keeps P ro \<longleftrightarrow>
     (\<forall>d f. P f \<longrightarrow> P (snd (Roll ro d f))) \<and>
     (\<forall>w bs h f. P f \<longrightarrow> (\<forall>f. P f \<longrightarrow> P (snd (h f))) \<longrightarrow> P (snd (snd (WriteData ro w bs h f))))"

definition write_keeps :: "(fs \<Rightarrow> bool) \<Rightarrow> ('r \<Rightarrow> bytes \<Rightarrow> fs \<Rightarrow> go_error option \<times> 'r \<times> fs) \<Rightarrow> bool" where
  "write_keeps P wr \<longleftrightarrow> (\<forall>w bs f. P f \<longrightarrow> P (snd (snd (wr w bs f))))"

lemma tar_before_fs_ok: "fs_ok f \<Longrightarrow> fs_ok (snd (tar_before pa d i p name buf f))"
  using Prepare_fs_ok [of f pa d i p] by (simp add: tar_before_def case_prod_beta Let_def)

lemma WriteData_fs_ok:
  "roll_keeps fs_ok ro \<Longrightarrow> fs_ok f \<Longrightarrow> fs_ok (snd (snd (WriteData ro w buf (tar_before pa d i p name buf') f)))"
  by (simp add: roll_keeps_def tar_before_fs_ok)

lemma storeMetadata_fs_ok:
  "roll_keeps fs_ok ro \<Longrightarrow> fs_ok f \<Longrightarrow> fs_ok (snd (snd (storeMetadata pa ro meta d w i p f)))"
  by (simp add: storeMetadata_def WriteData_fs_ok split: sum.split)

lemma tarstore_Store_fs_ok:
  assumes roll: "roll_keeps fs_ok ro" and "fs_ok f"
  shows "fs_ok (snd (snd (tarstore_Store pa ro meta i p (t, f))))"
proof -
  have Roll: "fs_ok (snd (Roll ro d f))" for d using assms by (simp add: roll_keeps_def)
  then show ?thesis
    using assms(2)
    by (auto simp: tarstore_Store_def case_prod_beta Let_def WriteData_fs_ok [OF roll] storeMetadata_fs_ok [OF roll]
        split: option.split sum.split)
qed

lemma hrdpstore_Store_fs_ok:
  assumes "write_keeps fs_ok wr" and "fs_ok f"
  shows "fs_ok (snd (snd (hrdpstore_Store pa tm now fmt (\<lambda>bs (w, f). wr w bs f) i p (w, f))))"
  using assms
  by (cases fmt) (auto simp: hrdpstore_Store_def encodeHRDP_def encodeHadock_def write_keeps_def split: sum.splits prod.splits)

lemma built_Store_fs_ok:
  assumes "roll_keeps fs_ok (en_roll en)" and "write_keeps fs_ok (en_write en)" and "fs_ok f"
  shows "fs_ok (snd (snd (built_Store en now b i p f)))"
proof (cases b)
  case (BuiltRecords d fmt w)
  then show ?thesis using hrdpstore_Store_fs_ok [OF assms(2,3)] by (simp add: built_Store_def case_prod_beta)
next
  case (BuiltArchive t)
  then show ?thesis using tarstore_Store_fs_ok [OF assms(1,3)] by (simp add: built_Store_def case_prod_beta)
next
  case (BuiltFiles s)
  then show ?thesis using filestore_Store_fs_ok [OF assms(3)] by (simp add: built_Store_def case_prod_beta)
qed

lemma listen_Storage_invariant:
  assumes "roll_keeps fs_ok (en_roll en)" and "write_keeps fs_ok (en_write en)"
  shows "invariant_storage (listen_Storage en n) (\<lambda>w. fs_ok (sw_fs w))"
  unfolding listen_Storage_def
proof (rule Multistore_invariant, intro ballI)
  fix m assume "m \<in> set (map (slot_Store en) [0..<n])"
  then obtain k where "m = slot_Store en k" by auto
  then show "invariant_storage m (\<lambda>w. fs_ok (sw_fs w))"
    using built_Store_fs_ok [OF assms] by (simp add: invariant_storage_def slot_Store_def case_prod_beta)
qed

lemma adds_dirs_chase: "adds_dirs f f' \<Longrightarrow> chase n f l = Some k \<Longrightarrow> node_at f k = Some nd \<Longrightarrow> chase n f' l = Some k \<and> node_at f' k = Some nd"
proof (induction n f l rule: chase.induct)
  case (2 n f l)
  have same: "node_at f l = Some nd' \<Longrightarrow> node_at f' l = Some nd'" for nd' l
    using "2.prems"(1) unfolding adds_dirs_def by (metis option.distinct(1))
  show ?case
  proof (cases "node_at f l")
    case None
    with 2 show ?thesis by simp
  next
    case (Some nd')
    with 2 same show ?thesis by (cases nd') auto
  qed
qed simp

lemma adds_dirs_Stat: "adds_dirs f f' \<Longrightarrow> Stat f p = Some nd \<Longrightarrow> Stat f' p = Some nd"
  using adds_dirs_chase [of f f' 40 "locate p"] by (auto simp: Stat_def split: option.splits)

lemma mkdir_shares_adds: "adds_dirs f (snd (mkdir_shares ss f))"
proof (induction ss f rule: mkdir_shares.induct)
  case (2 s ss f)
  obtain e g where g: "MkdirAll (o_Location s) f = (e, g)" by fastforce
  with MkdirAll_adds [of f "o_Location s"] have "adds_dirs f g" by simp
  with "2.IH" [OF g [symmetric] refl] g show ?case by (auto intro: adds_dirs_trans)
qed simp

lemma mkdirAll_adds: "adds_dirs f (snd (mkdirAll v f))"
  using MkdirAll_adds [of f "o_Location v"] mkdir_shares_adds
  by (auto simp: mkdirAll_def case_prod_beta intro: adds_dirs_trans)

text \<open>A property of the file system that new directories and package roll keep is kept by the set-up of the storages.\<close>

lemma build_store_keeps:
  assumes "roll_keeps P ro" and dirs: "\<And>f f'. adds_dirs f f' \<Longrightarrow> P f \<Longrightarrow> P f'" and "P f"
  shows "P (snd (build_store ro v f))"
proof -
  obtain e g where g: "mkdirAll v f = (e, g)" by fastforce
  with dirs [OF mkdirAll_adds assms(3), of v] have P: "P g" by simp
  then have "P (snd (Roll ro (o_Location v) g))" using assms(1) by (simp add: roll_keeps_def)
  with P have "P (snd (NewHRDPStorage ro v g))"
    by (auto simp: NewHRDPStorage_def Let_def split: option.splits prod.splits sum.splits)
  then show ?thesis using g P assms(3)
    by (auto simp: build_store_def split: option.splits prod.splits sum.splits)
qed

lemma setup_stores_keeps:
  assumes "roll_keeps P ro" and "\<And>f f'. adds_dirs f f' \<Longrightarrow> P f \<Longrightarrow> P f'" and "P f"
  shows "P (snd (setup_stores ro vs f))"
  using assms(3)
proof (induction vs arbitrary: f)
  case (Cons v vs)
  obtain r g where r: "build_store ro v f = (r, g)" by fastforce
  moreover have "P (snd (build_store ro v f))" by (rule build_store_keeps [OF assms(1,2) Cons.prems])
  ultimately have "P g" by simp
  then have "P (snd (setup_stores ro vs g))" "P (snd (setup_stores ro vs f))" using Cons.IH Cons.prems by blast+
  then show ?case using r \<open>P g\<close> by (cases "setup_stores ro vs g"; cases r) (auto split: sum.splits)
qed simp

text \<open>A storage is only built on a directory.\<close>

lemma build_store_location:
  assumes "build_store ro v f = (Inr b, f')" and "roll_keeps (\<lambda>f. Stat f (o_Location v) = Some Dir) ro"
  shows "o_Scheme v \<in> {''hrdp'', ''tar'', ''archive'', ''file''} \<and> Stat f' (o_Location v) = Some Dir"
proof -
  obtain e g where g: "mkdirAll v f = (e, g)" by fastforce
  have "Stat g (o_Location v) = Some Dir \<and> (f' = g \<or> f' = snd (Roll ro (o_Location v) g))"
    using assms(1) g
    by (auto simp: build_store_def NewHRDPStorage_def NewLocalStorage_def NewArchiveStorage_def Let_def
        split: option.splits prod.splits sum.splits if_splits)
  then show ?thesis using assms by (auto simp: build_store_def roll_keeps_def split: if_splits)
qed

lemma setup_stores_locations:
  assumes "setup_stores ro vs f = (Inr ss, f')" and roll: "\<forall>d. roll_keeps (\<lambda>f. Stat f d = Some Dir) ro"
  shows "length ss = length (filter (\<lambda>v. o_Scheme v \<noteq> '''') vs) \<and>
    (\<forall>v\<in>set vs. o_Scheme v \<noteq> '''' \<longrightarrow>
       o_Scheme v \<in> {''hrdp'', ''tar'', ''archive'', ''file''} \<and> Stat f' (o_Location v) = Some Dir)"
  using assms(1)
proof (induction vs arbitrary: f ss)
  case (Cons v vs)
  show ?case
  proof (cases "o_Scheme v = ''''")
    case False
    with Cons.prems obtain b g ss' where b: "build_store ro v f = (Inr b, g)" "setup_stores ro vs g = (Inr ss', f')"
      "ss = b # ss'" by (auto split: prod.splits sum.splits)
    have "Stat g (o_Location v) = Some Dir" "o_Scheme v \<in> {''hrdp'', ''tar'', ''archive'', ''file''}"
      using build_store_location [OF b(1)] roll by blast+
    moreover from this(1) have "Stat f' (o_Location v) = Some Dir"
      using setup_stores_keeps [of "\<lambda>f. Stat f (o_Location v) = Some Dir" ro g vs] roll adds_dirs_Stat b(2) by fastforce
    ultimately show ?thesis using Cons.IH [OF b(2)] b(3) False by simp
  qed (use Cons in simp)
qed simp

section \<open>The listener from its start\<close>

lemma runListen_ok:
  assumes "runListen en args f = (Inr st, f')"
  shows "\<exists>name. le_Flag en args = Inr name \<and> read_config (le_toml en) name f = Inr (st_config st) \<and>
    lc_Stores (st_config st) \<noteq> [] \<and> setup_stores (le_roll en) (lc_Stores (st_config st)) f = (Inr (st_stores st), f') \<and>
    setupPool (le_dial en) (le_create en) (lc_Pool (st_config st)) = (st_pool st, None) \<and>
    Decode (lc_Mode (st_config st)) = Inr (st_decode st) \<and> le_Listen en (lc_Addr (st_config st)) = None \<and>
    (st_modules st = None \<longleftrightarrow> lc_Modules (st_config st) = [])"
  using assms
  by (auto simp: runListen_def listen_services_def ListenPackets_def setupStorage_def split: sum.splits prod.splits option.splits if_splits)



section \<open>A listener that starts\<close>

definition sample_config :: listen_config where
  "sample_config = \<lparr>lc_Addr = '':9000'', lc_Mode = ''binary'', lc_Buffer = 8, lc_Proxy = \<lparr>px_Addr = '''', px_Size = 0\<rparr>,
     lc_Instances = [], lc_Stores = [sample_options], lc_Pool = \<lparr>pc_Interval = 0, pc_Limit = 0, pc_Notifiers = []\<rparr>,
     lc_Modules = []\<rparr>"

definition sample_roll :: "unit roll" where
  "sample_roll = \<lparr>Roll = (\<lambda>d f. (Inr (), f)), WriteData = (\<lambda>w bs h f. (None, w, snd (h f)))\<rparr>"

definition sample_listen_env :: "(unit, unit) listen_env" where
  "sample_listen_env = \<lparr>le_Flag = (\<lambda>args. Inr (hd args)), le_toml = (\<lambda>_. Inr sample_config), le_roll = sample_roll,
     le_dial = (\<lambda>_. None), le_create = (\<lambda>_. None), le_Listen = (\<lambda>_. None),
     le_plugins = \<lparr>plugin_Open = (\<lambda>_. Inl ENOENT), plugin_Lookup = (\<lambda>_. Inl ENOENT)\<rparr>\<rparr>"

definition sample_config_fs :: fs where
  "sample_config_fs = snd (WriteFile ''/hadock.toml'' [] empty_fs)"

definition sample_store_env :: "unit store_env" where
  "sample_store_env = \<lparr>en_panda = sample_panda, en_timutil = \<lparr>GPSTime = (\<lambda>t _. t), Split5 = (\<lambda>_. (0, 0))\<rparr>,
     en_roll = sample_roll, en_write = (\<lambda>w bs f. (None, w, f)), en_xml = (\<lambda>_. Inr []), en_Now = (\<lambda>_. zero_time)\<rparr>"

lemma sample_roll_keeps: "roll_keeps P sample_roll"
  by (simp add: roll_keeps_def sample_roll_def)

lemma sample_config_fs_ok: "fs_ok sample_config_fs"
  unfolding sample_config_fs_def by (rule fs_ok_ops) (simp add: fs_ok_def empty_fs_def node_at_def)

definition starts :: "('r, 'm) started outcome \<times> fs \<Rightarrow> bool" where
  "starts r = (case fst r of Inl _ \<Rightarrow> False | Inr st \<Rightarrow> st_pool st \<noteq> None)"

lemma sample_starts: "starts (runListen sample_listen_env [''/hadock.toml''] sample_config_fs)"
  by code_simp

lemma sample_started:
  "\<exists>st f' l. runListen sample_listen_env [''/hadock.toml''] sample_config_fs = (Inr st, f') \<and> started_listen st f' = Some l"
proof -
  obtain r f' where r: "runListen sample_listen_env [''/hadock.toml''] sample_config_fs = (r, f')" by fastforce
  with sample_starts obtain st where "r = Inr st" "st_pool st \<noteq> None" by (auto simp: starts_def split: sum.splits)
  with r show ?thesis by (auto simp: started_listen_def)
qed



end
