(* ===== verification/Hdk2udp.thy ===== *)
theory Hdk2udp
  imports Storage Pool
begin

text \<open>
  The translator of notifications into parameters (\<^verbatim>\<open>src/cmd/hdk2udp/main.go\<close>): it rebuilds
  from a message the path of the file the storage wrote and sends the fields of the message as
  a list of parameters. The serialisation of package proto is a parameter, and so are the sockets.
  The paths are compared with those of theory Storage.
\<close>

section \<open>References\<close>

definition instance_string :: "uint32 \<Rightarrow> string" where
  "instance_string i = Itoa (sint i)"

definition which_instance_name :: "Message \<Rightarrow> string" where
  "which_instance_name m =
     (let i = sint (msg_Instance m) in
      if i = uint TEST then ''TEST''
      else if i = uint SIM1 \<or> i = uint SIM2 then ''SIM'' @ instance_string (msg_Instance m)
      else if i = uint OPS then ''OPS''
      else ''DATA-'' @ instance_string (msg_Instance m))"

definition whichInstance :: "string \<Rightarrow> Message \<Rightarrow> string" where
  "whichInstance base m = Join [base, which_instance_name m]"

definition whichMode :: "string \<Rightarrow> Message \<Rightarrow> string" where
  "whichMode base m = Join [base, if msg_Realtime m then ''realtime'' else ''playback'']"

definition whichType :: "string \<Rightarrow> Message \<Rightarrow> string" where
  "whichType base m =
     Join [base, if msg_Channel m = 1 \<or> msg_Channel m = 2 then ''images''
                 else if msg_Channel m = 3 then ''sciences'' else ''unknown'']"

definition generation_time :: "panda \<Rightarrow> int \<Rightarrow> Message \<Rightarrow> gotime" where
  "generation_time pa off m = time_Unix off (go_div (GenerationTimeFromEpoch pa (sint (msg_Generated m))) 1000)"

definition acquisition_time :: "int \<Rightarrow> Message \<Rightarrow> gotime" where
  "acquisition_time off m = time_Unix off (sint (msg_Acquired m))"

lemma level_weights:
  "level_weight LevelInstance = 1" "level_weight LevelType = 1" "level_weight LevelMode = 1"
  "level_weight LevelSource = 1" "level_weight LevelYear = 1" "level_weight LevelDay = 1"
  "level_weight LevelHour = 1" "level_weight LevelMin = 1"
  "ToLower n = LevelClassic \<Longrightarrow> level_weight n = 6" "ToLower n = LevelVMUTime \<Longrightarrow> level_weight n = 6"
  "ToLower n = LevelACQTime \<Longrightarrow> level_weight n = 6" "0 < level_weight n"
  by (simp_all add: level_weight_def Level_defs)

function prepareReference ::
  "panda \<Rightarrow> int \<Rightarrow> string \<Rightarrow> string list \<Rightarrow> Message \<Rightarrow> int \<Rightarrow> gotime \<Rightarrow> string" where
  "prepareReference pa off base [] m g t = base"
| "prepareReference pa off base (n # ns) m g t =
     (let l = ToLower n;
          base' =
            (if l = LevelUPI then Join [base, msg_UPI m]
             else if l = LevelClassic then
               prepareReference pa off base [LevelInstance, LevelType, LevelMode, LevelSource] m g t
             else if l = LevelSource then Join [base, msg_Origin m]
             else if l = LevelInstance then whichInstance base m
             else if l = LevelType then whichType base m
             else if l = LevelMode then whichMode base m
             else if l = LevelVMUTime then
               prepareReference pa off base [LevelYear, LevelDay, LevelHour, LevelMin] m g (generation_time pa off m)
             else if l = LevelACQTime then
               prepareReference pa off base [LevelYear, LevelDay, LevelHour, LevelMin] m g (acquisition_time off m)
             else if l = LevelYear then Join [base, pad_int 4 (Year t)]
             else if l = LevelDay then Join [base, pad_int 3 (YearDay t)]
             else if l = LevelHour then Join [base, pad_int 2 (Hour t)]
             else if l = LevelMin then
               (if 0 < g then Join [base, pad_int 2 (Minute (Truncate t (1000000000 * g)))] else base)
             else Join [base, n])
      in prepareReference pa off base' ns m g t)"
  by pat_completeness auto
termination
  by (relation "measure (\<lambda>(pa, off, base, ls, m, g, t). sum_list (map level_weight ls))")
    (simp_all add: level_weights)

declare prepareReference.simps(2) [simp del]

record channel =
  cl_Link :: string
  cl_Name :: string
  cl_Groups :: "(string \<times> string) list"
  cl_Prefix :: string
  cl_Time :: string
  cl_Interval :: int
  cl_Levels :: "string list"

definition channel_Prepare :: "panda \<Rightarrow> int \<Rightarrow> channel \<Rightarrow> Message \<Rightarrow> string" where
  "channel_Prepare pa off c m =
     (let t = (if ToLower (cl_Time c) = ''acq'' then acquisition_time off m else generation_time pa off m);
          base = prepareReference pa off (cl_Prefix c) (cl_Levels c) m (cl_Interval c) t;
          ref = Join [base, msg_Reference m]
      in if \<not> HasPrefix ref ''/'' then ''/'' @ ref else ref)"

definition default_levels :: "channel \<Rightarrow> channel" where
  "default_levels c = (if length (cl_Levels c) = 0 then c\<lparr>cl_Levels := [LevelClassic, LevelVMUTime]\<rparr> else c)"

text \<open>
  The loop that reads the datagrams of a group into a buffer of 4096 bytes: what it puts into the queue. A read that
  fails is logged and tried again.
\<close>

definition channel_receive :: "panda \<Rightarrow> int \<Rightarrow> channel \<Rightarrow> bytes \<Rightarrow> Message list" where
  "channel_receive pa off c dgram =
     (if length dgram = 0 then []
      else (case fst (DecodeMessage (source (take 4096 dgram) EOF)) of
              (_, Some e) \<Rightarrow> []
            | (m, None) \<Rightarrow> [m\<lparr>msg_Reference := channel_Prepare pa off c m\<rparr>]))"

text \<open>
  \<^verbatim>\<open>channel.Run\<close>: the error it returns, the groups whose reader was started, and whether the queue is closed. A
  reader never ends, so that the method only returns early.
\<close>

record channel_run =
  cr_error :: "go_error option"
  cr_readers :: "(string \<times> string) list"
  cr_closed :: bool

fun run_groups :: "(string \<times> string \<Rightarrow> go_error option) \<Rightarrow> (string \<times> string) list \<Rightarrow> (string \<times> string) list \<Rightarrow> channel_run" where
  "run_groups subscribe [] started = \<lparr>cr_error = None, cr_readers = started, cr_closed = (started = [])\<rparr>"
| "run_groups subscribe (g # gs) started =
     (case subscribe g of
        Some e \<Rightarrow> \<lparr>cr_error = Some e, cr_readers = started, cr_closed = True\<rparr>
      | None \<Rightarrow> run_groups subscribe gs (started @ [g]))"

definition channel_Run :: "(string \<Rightarrow> go_error option) \<Rightarrow> (string \<times> string \<Rightarrow> go_error option) \<Rightarrow> channel \<Rightarrow> channel_run" where
  "channel_Run dial subscribe c =
     (case dial (cl_Link c) of
        Some e \<Rightarrow> \<lparr>cr_error = Some e, cr_readers = [], cr_closed = False\<rparr>
      | None \<Rightarrow> run_groups subscribe (cl_Groups c) [])"

section \<open>Parameters\<close>

datatype pvalue =
    PString string
  | PUint32 uint32
  | PSint32 uint32
  | PSint64 uint64
  | PBoolean bool

record parameter =
  pm_name :: string
  pm_namespace :: string
  pm_value :: pvalue
  pm_generation :: int
  pm_acquisition :: int

record parameter_data =
  pd_group :: string
  pd_generation :: int
  pd_seq :: uint32
  pd_parameters :: "parameter list"

definition marshalParameter :: "string \<Rightarrow> string \<times> pvalue \<Rightarrow> int \<Rightarrow> int \<Rightarrow> parameter" where
  "marshalParameter local v w t =
     \<lparr>pm_name = local @ fst v, pm_namespace = local, pm_value = snd v, pm_generation = t, pm_acquisition = w\<rparr>"

definition message_values :: "int \<Rightarrow> Message \<Rightarrow> (string \<times> pvalue) list" where
  "message_values adjt m =
     [(''origin'', PString (msg_Origin m)), (''sequence'', PUint32 (msg_Sequence m)),
      (''instance'', PSint32 (msg_Instance m)), (''channel'', PSint32 (ucast (msg_Channel m))),
      (''realtime'', PBoolean (msg_Realtime m)), (''count'', PUint32 (msg_Count m)),
      (''elapsed'', PSint64 (msg_Elapsed m)), (''timestamp'', PSint64 (of_int (go_div adjt 1000))),
      (''reference'', PString (msg_Reference m)), (''upi'', PString (msg_UPI m))]"

definition marshal :: "panda \<Rightarrow> gotime \<Rightarrow> Message \<Rightarrow> string \<Rightarrow> uint32 \<Rightarrow> parameter_data" where
  "marshal pa now m n i =
     (let adjw = AcquisitionTimeFromEpoch pa (Unix now);
          adjt = GenerationTimeFromEpoch pa (sint (msg_Generated m))
      in \<lparr>pd_group = n, pd_generation = adjt, pd_seq = i,
          pd_parameters = map (\<lambda>(name, v). marshalParameter n (msg_Origin m @ ''_'' @ name, v) adjw adjt)
            (message_values adjt m)\<rparr>)"

text \<open>
  The socket of the translator: after a permanent error it connects again, and it never reports
  an error. \<open>sendTo\<close> counts the messages modulo \<open>2 ^ 16\<close>, failed ones included.
\<close>

definition conn_Write :: "go_error option \<Rightarrow> bool \<Rightarrow> nat option \<Rightarrow> bytes \<Rightarrow> nat \<Rightarrow> (nat \<times> go_error option) \<times> nat" where
  "conn_Write err permanent redial bs c =
     (case err of
        None \<Rightarrow> ((length bs, None), c)
      | Some e \<Rightarrow> ((length bs, None), if permanent then (case redial of None \<Rightarrow> c | Some s \<Rightarrow> s) else c))"

fun sendTo ::
  "panda \<Rightarrow> (parameter_data \<Rightarrow> bytes outcome) \<Rightarrow> string \<Rightarrow> uint16 \<Rightarrow> (gotime \<times> Message) list \<Rightarrow> bytes list" where
  "sendTo pa proto_Marshal n i [] = []"
| "sendTo pa proto_Marshal n i ((now, m) # ms) =
     (let i = i + 1 in
      (case proto_Marshal (marshal pa now m n (ucast i)) of
         Inl e \<Rightarrow> sendTo pa proto_Marshal n i ms
       | Inr bs \<Rightarrow> bs # sendTo pa proto_Marshal n i ms))"

section \<open>Agreement with the storage\<close>

definition describes :: "panda \<Rightarrow> int \<Rightarrow> uint8 \<Rightarrow> HRPacket \<Rightarrow> Message \<Rightarrow> bool" where
  "describes pa off i p m \<longleftrightarrow>
     msg_Instance m = ucast i \<and> msg_Origin m = hr_Origin p \<and> msg_Realtime m = hr_IsRealtime p \<and>
     (case hr_kind p of Table _ \<Rightarrow> msg_Channel m = 3 | Image _ \<Rightarrow> msg_Channel m = 1 \<or> msg_Channel m = 2
      | OtherPacket \<Rightarrow> msg_Channel m \<notin> {1, 2, 3}) \<and>
     generation_time pa off m = getVMUTime pa p \<and> acquisition_time off m = getACQTime p"

lemma sint_instance: "sint (ucast (i :: uint8) :: uint32) = uint i"
proof -
  have u: "uint (ucast i :: uint32) = uint i" by (simp add: unsigned_ucast_eq take_bit_int_eq_self order_less_le_trans [OF uint_lt2p])
  have "- (2 ^ 31) \<le> uint i" by (rule order_trans [of _ 0]) simp_all
  moreover have "uint i < 2 ^ 31" by (rule order_less_trans [OF uint_lt2p]) simp
  ultimately have "signed_take_bit 31 (uint i) = uint i" by (rule signed_take_bit_int_eq_self)
  then show ?thesis using u by (simp add: sint_uint)
qed

lemma which_instance_agrees: "msg_Instance m = ucast i \<Longrightarrow> which_instance_name m = instance_name i"
  by (simp add: which_instance_name_def instance_name_def instance_string_def sint_instance word_uint_eq_iff [symmetric])

lemma describes_dirs:
  assumes "describes pa off i p m"
  shows "whichInstance base m = instanceDir base i" "whichType base m = typeDir base p"
    "whichMode base m = modeDir base p" "msg_Origin m = hr_Origin p"
    "generation_time pa off m = getVMUTime pa p" "acquisition_time off m = getACQTime p"
  using assms
  by (auto simp: describes_def whichInstance_def instanceDir_def which_instance_agrees whichType_def typeDir_def
      type_name_def whichMode_def modeDir_def mode_name_def split: packet_kind.splits)

lemma classic_agrees:
  assumes "describes pa off i p m"
  shows "prepareReference pa off base [LevelInstance, LevelType, LevelMode, LevelSource] m g t =
    prepareDirectory pa base [LevelInstance, LevelType, LevelMode, LevelSource] g i p t"
  by (simp add: prepareReference.simps(2) prepareDirectory.simps(2) Level_defs describes_dirs [OF assms])

lemma time_agrees:
  "prepareReference pa off base [LevelYear, LevelDay, LevelHour, LevelMin] m g t =
    prepareDirectory pa base [LevelYear, LevelDay, LevelHour, LevelMin] g i p t"
  by (simp add: prepareReference.simps(2) prepareDirectory.simps(2) Level_defs)

lemma level_agrees:
  assumes "describes pa off i p m" and "ToLower n \<noteq> ''upi''"
  shows "\<exists>b. prepareReference pa off base (n # ns) m g t = prepareReference pa off b ns m g t \<and>
             prepareDirectory pa base (n # ns) g i p t = prepareDirectory pa b ns g i p t"
proof (cases "ToLower n \<in> {''classic'', ''instance'', ''type'', ''mode'', ''source'', ''year'',
    ''doy'', ''hour'', ''minute'', ''vmu'', ''acq''}")
  case True
  note laws = describes_dirs [OF assms(1)] classic_agrees [OF assms(1), unfolded Level_defs]
    time_agrees [unfolded Level_defs, where i = i and p = p]
  from True show ?thesis
    unfolding prepareDirectory.simps(2) [of pa base n ns] prepareReference.simps(2) [of pa off base n ns] Level_defs Let_def
    by (elim insertE emptyE) (simp_all add: laws, auto)
next
  case False
  with assms(2) show ?thesis
    by (subst prepareDirectory.simps(2), subst prepareReference.simps(2)) (auto simp: Level_defs)
qed

lemma prepareReference_agrees:
  assumes "describes pa off i p m"
  shows "\<forall>n\<in>set levels. ToLower n \<noteq> ''upi'' \<Longrightarrow>
    prepareReference pa off base levels m g t = prepareDirectory pa base levels g i p t"
proof (induction levels arbitrary: base)
  case (Cons n ns)
  from Cons.prems have "ToLower n \<noteq> ''upi''" by simp
  from level_agrees [OF assms this, of base ns g t] obtain b where
    "prepareReference pa off base (n # ns) m g t = prepareReference pa off b ns m g t"
    "prepareDirectory pa base (n # ns) g i p t = prepareDirectory pa b ns g i p t" by blast
  with Cons show ?case by simp
qed simp

lemma channel_Prepare_path:
  assumes "describes pa off i p m" and "\<forall>n\<in>set (cl_Levels c). ToLower n \<noteq> ''upi''"
    and "dm_Levels d = cl_Levels c" and "dm_Base d = cl_Prefix c" and "dm_Interval d = cl_Interval c"
    and "ToLower (dm_Time d) \<in> {'''', ''vmu''}" and "ToLower (cl_Time c) \<noteq> ''acq''"
    and "\<not> IsZero (getVMUTime pa p)" and "is_rooted (Join [prepare_path pa d i p, msg_Reference m])"
  shows "channel_Prepare pa off c m = Join [prepare_path pa d i p, msg_Reference m]"
proof -
  have "prepare_time pa d p = generation_time pa off m"
    using assms(6,8) describes_dirs(5) [OF assms(1)] by (auto simp: prepare_time_def)
  then have "prepareReference pa off (cl_Prefix c) (cl_Levels c) m (cl_Interval c) (generation_time pa off m) =
      prepare_path pa d i p"
    using prepareReference_agrees [OF assms(1,2)] by (simp add: prepare_path_def assms(3-5))
  moreover have "HasPrefix (Join [prepare_path pa d i p, msg_Reference m]) ''/''"
    using assms(9) by (simp add: HasPrefix_def is_rooted_def split: list.splits)
  ultimately show ?thesis using assms(7) by (simp add: channel_Prepare_def Let_def)
qed

text \<open>
  The translator finds the file the storage wrote: for a message that describes a packet
  (instance, origin, mode, channel of its type, generation and acquisition times), and a layout without the
  level \<^verbatim>\<open>upi\<close>, the reference it computes from the message alone is the directory the storage computes from the
  packet, joined with the file name.
\<close>

theorem reference_is_stored_path:
  assumes "describes pa off i p m" and "\<forall>n\<in>set (cl_Levels c). ToLower n \<noteq> ''upi''"
    and "dm_Levels d = cl_Levels c" and "dm_Base d = cl_Prefix c" and "dm_Interval d = cl_Interval c"
    and "ToLower (dm_Time d) \<in> {'''', ''vmu''}" and "ToLower (cl_Time c) \<noteq> ''acq''"
    and "\<not> IsZero (getVMUTime pa p)" and "is_rooted (Join [prepare_path pa d i p, msg_Reference m])"
  shows "channel_Prepare pa off c m = Join [prepare_path pa d i p, msg_Reference m]"
  by (rule channel_Prepare_path [OF assms])

definition sample_described :: Message where
  "sample_described = build_message (Key True ''36'' 255) [sample_table\<lparr>hr_Generated := Some (time_Unix 0 1000000)\<rparr>]"

theorem reference_is_stored_path_witness:
  "channel_Prepare sample_panda 0 \<lparr>cl_Link = [], cl_Name = [], cl_Groups = [], cl_Prefix = ''/data'', cl_Time = [], cl_Interval = 0,
      cl_Levels = [''classic'', ''vmu'']\<rparr> sample_described =
   Join [prepare_path sample_panda (NewDirectory ''/data'' [] [] 0) 255 sample_table, ''36_7.dat'']"
proof -
  let ?c = "\<lparr>cl_Link = [], cl_Name = [], cl_Groups = [], cl_Prefix = ''/data'', cl_Time = [], cl_Interval = 0, cl_Levels = [''classic'', ''vmu'']\<rparr>"
  let ?d = "NewDirectory ''/data'' [] [] 0"
  have m: "msg_Reference sample_described = ''36_7.dat''" "msg_Generated sample_described = 1000000"
    "msg_Acquired sample_described = 1000000" "msg_Instance sample_described = 255"
    "msg_Origin sample_described = ''36''" "msg_Realtime sample_described" "msg_Channel sample_described = 3"
    by (simp_all add: sample_described_def build_message_def sort_slice_def sample_table_def)
  have "describes sample_panda 0 255 sample_table sample_described"
    by (simp add: describes_def m)
      (simp add: sample_table_def generation_time_def m acquisition_time_def getVMUTime_def getACQTime_def
        sample_panda_def sample_vmu_header_def go_div_def)
  moreover have "\<forall>n\<in>set (cl_Levels ?c). ToLower n \<noteq> ''upi''" by simp
  moreover have "dm_Levels ?d = cl_Levels ?c" "dm_Base ?d = cl_Prefix ?c" "dm_Interval ?d = cl_Interval ?c"
    "ToLower (dm_Time ?d) \<in> {'''', ''vmu''}" "ToLower (cl_Time ?c) \<noteq> ''acq''"
    by (simp_all add: NewDirectory_def checkLevels_def Level_defs ToLower_def)
  moreover have "\<not> IsZero (getVMUTime sample_panda sample_table)" by code_simp
  moreover have "is_rooted (Join [prepare_path sample_panda ?d 255 sample_table, msg_Reference sample_described])"
    unfolding m by code_simp
  ultimately show ?thesis
    using reference_is_stored_path [of sample_panda 0 255 sample_table sample_described ?c ?d] by (simp add: m)
qed

text \<open>
  With the level \<^verbatim>\<open>upi\<close> the translator looks in the wrong directory: for a science packet
  without user information the storage files under SCIENCES, while the message, and so the
  reference, says SCIENCE.
\<close>

theorem reference_upi_differs:
  assumes "hr_kind p = Table (SDHv2 s)" and "\<forall>b\<in>set (sd_Info s). b = 0" and "msg_UPI m = extractUserInfo p"
    and "\<forall>w\<in>set cs. plain_name w"
  shows "prepareDirectory pa (render r cs) [LevelUPI] g i p t = render r (cs @ [''SCIENCES'']) \<and>
    prepareReference pa off (render r cs) [LevelUPI] m g t = render r (cs @ [''SCIENCE''])"
proof -
  have "trim_zeros (sd_Info s) = []" using assms(2) by (simp add: trim_zeros_Nil)
  then have "getUPI p = ''SCIENCES''" "extractUserInfo p = ''SCIENCE''"
    by (simp_all add: getUPI_def extractUserInfo_def assms(1) trim_upi_def string_of_bytes_def Let_def)
  then show ?thesis
    using assms(3,4) Join_render [OF assms(4), of "''SCIENCES''" r] Join_render [OF assms(4), of "''SCIENCE''" r]
    by (simp add: prepareDirectory.simps(2) prepareReference.simps(2) Level_defs plain_name_def)
qed

theorem reference_upi_differs_witness:
  "\<exists>p m. prepareDirectory sample_panda (render True [''data'']) [LevelUPI] 0 255 p zero_time = render True ([''data''] @ [''SCIENCES'']) \<and>
    prepareReference sample_panda 0 (render True [''data'']) [LevelUPI] m 0 zero_time = render True ([''data''] @ [''SCIENCE''])"
proof -
  let ?s = "sample_sdh\<lparr>sd_Info := replicate 32 0\<rparr>"
  let ?p = "sample_table\<lparr>hr_kind := Table (SDHv2 ?s)\<rparr>"
  let ?m = "new_Message\<lparr>msg_UPI := extractUserInfo ?p\<rparr>"
  have "hr_kind ?p = Table (SDHv2 ?s)" "\<forall>b\<in>set (sd_Info ?s). b = 0" "msg_UPI ?m = extractUserInfo ?p"
    "\<forall>w\<in>set [''data'']. plain_name w" by (simp_all add: plain_name_def)
  from reference_upi_differs [OF this] show ?thesis by blast
qed

section \<open>Sequence numbers\<close>

lemma sendTo_all:
  "(\<And>d. \<exists>bs. pm d = Inr bs) \<Longrightarrow>
     map Inr (sendTo pa pm n i ms) =
     map (\<lambda>k. pm (marshal pa (fst (ms ! k)) (snd (ms ! k)) n (ucast (i + of_nat (Suc k))))) [0..<length ms]"
proof (induction ms arbitrary: i)
  case (Cons x ms)
  obtain now m where x: "x = (now, m)" by fastforce
  obtain bs where bs: "pm (marshal pa now m n (ucast (i + 1))) = Inr bs" using Cons.prems by blast
  have "[0..<length (x # ms)] = 0 # map Suc [0..<length ms]" by (simp add: upt_conv_Cons map_Suc_upt del: upt_Suc)
  then show ?case
    using Cons.IH [OF Cons.prems, of "i + 1"] bs by (simp add: x add.assoc del: upt_Suc)
qed simp

end
