(* ===== verification/Translator.thy ===== *)
theory Translator
  imports Hdk2udp Transition
begin

text \<open>
  The translator as a running program (\<^verbatim>\<open>src/cmd/hdk2udp/main.go\<close>): its set-up, and the goroutines of a
  channel, one reader per group and one sender, as a step relation over the queue between them. The
  readers wait when the queue is full, so that nothing is lost; \<open>Transition.draining\<close> gives that everything received is
  forwarded. The sockets, the decoder of the configuration and the serialisation of package proto are parameters.
\<close>

section \<open>Set-up\<close>

record conn =
  cn_Conn :: nat
  cn_addr :: string

definition connect :: "(string \<Rightarrow> nat outcome) \<Rightarrow> string \<Rightarrow> conn outcome" where
  "connect dial a = (case dial a of Inl e \<Rightarrow> Inl e | Inr c \<Rightarrow> Inr \<lparr>cn_Conn = c, cn_addr = a\<rparr>)"

text \<open>An interface that does not exist is left to the system.\<close>

definition subscribe ::
  "(string \<Rightarrow> 'a outcome) \<Rightarrow> (string \<Rightarrow> 'i outcome) \<Rightarrow> ('i option \<Rightarrow> 'a \<Rightarrow> nat outcome) \<Rightarrow> string \<Rightarrow> string \<Rightarrow> nat outcome" where
  "subscribe resolve interface_by_name listen a i =
     (case resolve a of
        Inl e \<Rightarrow> Inl e
      | Inr addr \<Rightarrow> listen (case interface_by_name i of Inl _ \<Rightarrow> None | Inr ifi \<Rightarrow> Some ifi) addr)"

definition failed :: "'a outcome \<Rightarrow> go_error option" where
  "failed r = (case r of Inl e \<Rightarrow> Some e | Inr _ \<Rightarrow> None)"

text \<open>Every channel of the configuration is run in its own goroutine; a configuration that cannot be read ends the program.\<close>

definition hdk2udp_main ::
  "(string \<Rightarrow> channel list outcome) \<Rightarrow> (string \<Rightarrow> nat outcome) \<Rightarrow> (string \<Rightarrow> string \<Rightarrow> nat outcome) \<Rightarrow> string \<Rightarrow>
   channel_run list outcome" where
  "hdk2udp_main toml dial sub name =
     (case toml name of
        Inl e \<Rightarrow> Inl e
      | Inr cs \<Rightarrow>
          Inr (map (\<lambda>c. channel_Run (\<lambda>a. failed (connect dial a)) (\<lambda>(a, i). failed (sub a i)) (default_levels c)) cs))"

section \<open>A channel\<close>

text \<open>
  \<open>tr_inputs\<close> has, for every group that was subscribed, the datagrams that still arrive; \<open>tr_queued\<close> and \<open>tr_forwarded\<close> record
  what was put into the queue and what the sender took from it, with the time at which it was converted.
\<close>

record translator =
  tr_inputs :: "bytes list list"
  tr_queue :: "Message list"
  tr_queued :: "Message list"
  tr_seq :: uint16
  tr_wire :: "bytes list"
  tr_forwarded :: "(gotime \<times> Message) list"
  tr_closed :: bool
  tr_panic :: bool

definition new_translator :: "bool \<Rightarrow> bytes list list \<Rightarrow> translator" where
  "new_translator b dss = \<lparr>tr_inputs = dss, tr_queue = [], tr_queued = [], tr_seq = 0, tr_wire = [], tr_forwarded = [],
     tr_closed = b, tr_panic = False\<rparr>"

inductive translator_step ::
  "panda \<Rightarrow> int \<Rightarrow> channel \<Rightarrow> (parameter_data \<Rightarrow> bytes outcome) \<Rightarrow> translator \<Rightarrow> translator \<Rightarrow> bool"
  for pa off c pm where
  ignore: "\<not> tr_panic s \<Longrightarrow> i < length (tr_inputs s) \<Longrightarrow> tr_inputs s ! i = d # ds \<Longrightarrow> channel_receive pa off c d = [] \<Longrightarrow>
    translator_step pa off c pm s (s\<lparr>tr_inputs := (tr_inputs s)[i := ds]\<rparr>)"
| enqueue: "\<not> tr_panic s \<Longrightarrow> i < length (tr_inputs s) \<Longrightarrow> tr_inputs s ! i = d # ds \<Longrightarrow> channel_receive pa off c d = [m] \<Longrightarrow>
    \<not> tr_closed s \<Longrightarrow> length (tr_queue s) < 100 \<Longrightarrow>
    translator_step pa off c pm s (s\<lparr>tr_inputs := (tr_inputs s)[i := ds], tr_queue := tr_queue s @ [m], tr_queued := tr_queued s @ [m]\<rparr>)"
| enqueue_closed: "\<not> tr_panic s \<Longrightarrow> i < length (tr_inputs s) \<Longrightarrow> tr_inputs s ! i = d # ds \<Longrightarrow> channel_receive pa off c d = [m] \<Longrightarrow>
    tr_closed s \<Longrightarrow> translator_step pa off c pm s (s\<lparr>tr_panic := True\<rparr>)"
| forward: "\<not> tr_panic s \<Longrightarrow> tr_queue s = m # ms \<Longrightarrow>
    translator_step pa off c pm s (s\<lparr>tr_queue := ms, tr_seq := tr_seq s + 1,
      tr_wire := tr_wire s @ sendTo pa pm (cl_Name c) (tr_seq s) [(now, m)], tr_forwarded := tr_forwarded s @ [(now, m)]\<rparr>)"

inductive_cases translator_stepE: "translator_step pa off c pm s s'"

section \<open>Properties\<close>

definition received_messages :: "panda \<Rightarrow> int \<Rightarrow> channel \<Rightarrow> bytes list \<Rightarrow> Message list" where
  "received_messages pa off c ds = concat (map (channel_receive pa off c) ds)"

lemma received_messages_simps [simp]:
  "received_messages pa off c [] = []"
  "received_messages pa off c (d # ds) = channel_receive pa off c d @ received_messages pa off c ds"
  by (simp_all add: received_messages_def)

lemma channel_receive_length: "channel_receive pa off c d = [] \<or> (\<exists>m. channel_receive pa off c d = [m])"
  by (auto simp: channel_receive_def split: prod.splits option.splits)

lemma sendTo_append:
  "sendTo pa pm n i (xs @ ys) = sendTo pa pm n i xs @ sendTo pa pm n (i + of_nat (length xs)) ys"
proof (induction xs arbitrary: i)
  case (Cons x xs)
  obtain now m where x: "x = (now, m)" by fastforce
  have "i + 1 + of_nat (length xs) = i + of_nat (length (x # xs))" by simp
  with Cons [of "i + 1"] show ?case by (simp add: x Let_def split: sum.splits)
qed simp

definition translator_inv :: "panda \<Rightarrow> int \<Rightarrow> channel \<Rightarrow> (parameter_data \<Rightarrow> bytes outcome) \<Rightarrow> bytes list list \<Rightarrow> translator \<Rightarrow> bool" where
  "translator_inv pa off c pm dss s \<longleftrightarrow>
     length (tr_queue s) \<le> 100 \<and> map snd (tr_forwarded s) @ tr_queue s = tr_queued s \<and>
     tr_seq s = of_nat (length (tr_forwarded s)) \<and> tr_wire s = sendTo pa pm (cl_Name c) 0 (tr_forwarded s) \<and>
     (\<forall>ys. interleaves (map (received_messages pa off c) (tr_inputs s)) ys \<longrightarrow>
       interleaves (map (received_messages pa off c) dss) (tr_queued s @ ys))"

lemma translator_inv_init: "translator_inv pa off c pm dss (new_translator b dss)"
  by (simp add: translator_inv_def new_translator_def)

lemma translator_inv_step:
  assumes inv: "translator_inv pa off c pm dss s" and step: "translator_step pa off c pm s s'"
  shows "translator_inv pa off c pm dss s'"
  using step
proof cases
  case (ignore i d ds)
  let ?R = "received_messages pa off c"
  have "?R (tr_inputs s ! i) = ?R ds" using ignore by simp
  then have "map ?R ((tr_inputs s)[i := ds]) = map ?R (tr_inputs s)"
    using ignore(3) by (metis list_update_id map_update nth_map)
  with ignore inv show ?thesis by (simp add: translator_inv_def)
next
  case (enqueue i d ds m)
  let ?R = "received_messages pa off c"
  have "interleaves (map ?R dss) (tr_queued s @ m # ys)" if "interleaves (map ?R ((tr_inputs s)[i := ds])) ys" for ys
  proof -
    have "interleaves (map ?R (tr_inputs s)) (m # ys)"
      by (rule interleaves.sends [of i _ _ "?R ds"]) (use that enqueue in \<open>simp_all add: map_update\<close>)
    then show ?thesis using inv by (simp add: translator_inv_def)
  qed
  with enqueue inv show ?thesis by (simp add: translator_inv_def)
next
  case (forward m ms now)
  with inv sendTo_append [of pa pm "cl_Name c" 0 "tr_forwarded s" "[(now, m)]"] show ?thesis
    by (simp add: translator_inv_def)
qed (use inv in \<open>simp add: translator_inv_def\<close>)

interpretation translating: step_invariant "\<lambda>s. s = new_translator b dss" "translator_step pa off c pm"
    "translator_inv pa off c pm dss" for b dss pa off c pm
  by unfold_locales (auto intro: translator_inv_init translator_inv_step)

section \<open>Progress\<close>

definition messages_left :: "translator \<Rightarrow> nat" where
  "messages_left s = 2 * (\<Sum>ds\<leftarrow>tr_inputs s. length ds) + length (tr_queue s)"

lemma inputs_shrink:
  "i < length dss \<Longrightarrow> dss ! i = d # ds \<Longrightarrow> (\<Sum>ds\<leftarrow>dss. length ds) = Suc (\<Sum>ds\<leftarrow>dss[i := ds]. length ds)"
  by (induction dss arbitrary: i) (auto simp: nth_Cons split: nat.splits)

interpretation forwarding: draining "translator_step pa off c pm" "\<lambda>s. \<not> tr_closed s \<and> \<not> tr_panic s" messages_left
    "\<lambda>s. tr_queue s = [] \<and> (\<forall>ds\<in>set (tr_inputs s). ds = [])" for pa off c pm
proof
  fix s s' assume open': "\<not> tr_closed s \<and> \<not> tr_panic s" and step: "translator_step pa off c pm s s'"
  show "\<not> tr_closed s' \<and> \<not> tr_panic s'" using step open' by (auto elim!: translator_stepE)
  show "messages_left s' < messages_left s"
    using step open' by (auto simp: messages_left_def inputs_shrink elim!: translator_stepE)
next
  fix s :: translator
  assume open': "\<not> tr_closed s \<and> \<not> tr_panic s" and work: "\<not> (tr_queue s = [] \<and> (\<forall>ds\<in>set (tr_inputs s). ds = []))"
  show "\<exists>s'. translator_step pa off c pm s s'"
  proof (cases "tr_queue s")
    case (Cons m ms)
    then show ?thesis using translator_step.forward open' by blast
  next
    case Nil
    with work obtain i d ds where i: "i < length (tr_inputs s)" "tr_inputs s ! i = d # ds"
      by (metis in_set_conv_nth list.exhaust)
    with Nil open' channel_receive_length [of pa off c d] show ?thesis
      using translator_step.ignore [of s i d ds] translator_step.enqueue [of s i d ds] by fastforce
  qed
qed


text \<open>
  When a later group cannot be subscribed the method \<^verbatim>\<open>Run\<close> closes the queue while the readers of the groups before it
  go on: the next notification they receive makes the program panic.
\<close>

theorem translator_panics:
  assumes "dial (cl_Link c) = None" and "cl_Groups c = gs @ [g] @ hs" and "\<forall>x\<in>set gs. sub x = None" and "sub g = Some e"
    and "i < length dss" "dss ! i = d # ds" and "channel_receive pa off c d = [m]"
  shows "channel_Run dial sub c = \<lparr>cr_error = Some e, cr_readers = gs, cr_closed = True\<rparr> \<and>
    translator_step pa off c pm (new_translator True dss) ((new_translator True dss)\<lparr>tr_panic := True\<rparr>)"
proof -
  have "\<forall>x\<in>set gs. sub x = None \<Longrightarrow> run_groups sub (gs @ [g] @ hs) ss = \<lparr>cr_error = Some e, cr_readers = ss @ gs, cr_closed = True\<rparr>" for ss
    by (induction gs arbitrary: ss) (simp_all add: assms(4))
  with assms(1-3) have "channel_Run dial sub c = \<lparr>cr_error = Some e, cr_readers = gs, cr_closed = True\<rparr>"
    by (simp add: channel_Run_def)
  then show ?thesis using translator_step.enqueue_closed [of "new_translator True dss" i d ds pa off c m pm] assms(5-7)
    by (simp add: new_translator_def)
qed

lemma channel_receive_message:
  assumes "fits_message m" and "length (encode_message m) \<le> 4096"
  shows "channel_receive pa off c (encode_message m) = [m\<lparr>msg_Reference := channel_Prepare pa off c m\<rparr>]"
proof -
  have "encode_message m \<noteq> []" by (simp add: encode_message_def put_string_def) (metis length_put_be list.size(3) zero_neq_numeral)
  moreover have "DecodeMessage (source (encode_message m @ []) EOF) = ((m, None), source [] EOF)"
    unfolding DecodeMessage_success by (rule notification.get_put [OF assms(1)])
  ultimately show ?thesis using assms(2) by (simp add: channel_receive_def)
qed

lemma translator_finishes:
  "\<exists>n s. (translator_step pa off c pm ^^ n) (new_translator False dss) s \<and> \<not> (\<exists>t. translator_step pa off c pm s t)"
proof -
  have "\<not> tr_closed (new_translator False dss) \<and> \<not> tr_panic (new_translator False dss)" by (simp add: new_translator_def)
  from forwarding.ends [OF this, of pa off c pm] obtain s where
    s: "(translator_step pa off c pm)\<^sup>*\<^sup>* (new_translator False dss) s" "tr_queue s = []" "\<forall>ds\<in>set (tr_inputs s). ds = []" by blast
  have "\<not> translator_step pa off c pm s t" for t
    using s(2,3) by (auto elim!: translator_stepE) (metis list.distinct(1) nth_mem)+
  with s(1) show ?thesis by (meson rtranclp_imp_relpowp)
qed

definition sample_channel :: channel where
  "sample_channel = \<lparr>cl_Link = [], cl_Name = ''/hdk'', cl_Groups = [(''a'', []), (''b'', [])], cl_Prefix = ''/data'', cl_Time = [],
     cl_Interval = 0, cl_Levels = [''classic'', ''vmu'']\<rparr>"

lemma sample_message_datagram: "fits_message sample_message" "length (encode_message sample_message) \<le> 4096"
  by (simp_all add: fits_message_def fits_string_def sample_message_def new_Message_def encode_message_def put_string_def)


theorem translator_panics_witness:
  "channel_Run (\<lambda>_. None) (\<lambda>x. if fst x = ''a'' then None else Some EOF) sample_channel =
     \<lparr>cr_error = Some EOF, cr_readers = [(''a'', [])], cr_closed = True\<rparr> \<and>
   translator_step sample_panda 0 sample_channel (\<lambda>_. Inr [1]) (new_translator True [[encode_message sample_message]])
     ((new_translator True [[encode_message sample_message]])\<lparr>tr_panic := True\<rparr>)"
  by (rule translator_panics [OF _ _ _ _ _ _ channel_receive_message [OF sample_message_datagram],
        where g = "(''b'', [])" and hs = "[]" and i = 0 and ds = "[]"])
     (simp_all add: sample_channel_def)

end
