(* ===== verification/Vmutools.thy ===== *)
theory Vmutools
  imports Notifier Filestore
begin

text \<open>
  The two commands that read archived VMU packets: \<^verbatim>\<open>src/cmd/vmucat\<close>, which lists and counts them,
  and \<^verbatim>\<open>src/cmd/vmuzip\<close>, which exports them to files. Finding, reading and checking the packets of an archive is
  the work of package panda; what its reader returns is the input.
\<close>

section \<open>Command line values\<close>

text \<open>\<^verbatim>\<open>strings.Split(s, ",")\<close>.\<close>

fun split_comma :: "string \<Rightarrow> string list" where
  "split_comma [] = [[]]"
| "split_comma (c # s) =
     (case split_comma s of
        [] \<Rightarrow> [[c]]
      | w # ws \<Rightarrow> if c = CHR '','' then [] # w # ws else (c # w) # ws)"

definition channel_named :: "panda \<Rightarrow> string \<Rightarrow> Channel option" where
  "channel_named pa n =
     (if n = ''vic1'' then Some (Video1 pa) else if n = ''vic2'' then Some (Video2 pa)
      else if n = ''lrsd'' then Some (Science pa) else None)"

text \<open>On an unknown name the channels named before it stay appended, not yet sorted.\<close>

fun append_channels :: "panda \<Rightarrow> string list \<Rightarrow> Channel list \<Rightarrow> go_error option \<times> Channel list" where
  "append_channels pa [] cs = (None, cs)"
| "append_channels pa (n # ns) cs =
     (case channel_named pa n of
        None \<Rightarrow> (Some (Errorf ''unknown channel %q''), cs)
      | Some c \<Rightarrow> append_channels pa ns (cs @ [c]))"

definition channels_Set :: "panda \<Rightarrow> string \<Rightarrow> Channel list \<Rightarrow> go_error option \<times> Channel list" where
  "channels_Set pa vs cs =
     (case append_channels pa (split_comma vs) cs of
        (Some e, cs) \<Rightarrow> (Some e, cs)
      | (None, cs) \<Rightarrow> (None, rev (sort_slice id cs)))"

definition mode_Set :: "string \<Rightarrow> string \<Rightarrow> go_error option \<times> string" where
  "mode_Set v m =
     (if v \<in> {''realtime'', ''playback'', '''', ''*''} then (None, v) else (Some (Errorf ''unknown source %q''), m))"

definition formats_Set :: "string \<Rightarrow> string list \<Rightarrow> string list" where
  "formats_Set vs fs = sort_slice id (fs @ map ToLower (split_comma vs))"

section \<open>Reading the packets of an archive\<close>

text \<open>What the reader returns before it is exhausted: a packet, a value of another type, or an error, which ends the program.\<close>

datatype read_result = ReadPacket HRPacket | ReadOther | ReadFailed go_error

definition listed :: "'a::linorder list \<Rightarrow> 'a \<Rightarrow> bool" where
  "listed xs x =
     (let ix = sort_Search (length xs) (\<lambda>i. xs ! i \<le> x) in
      \<not> (0 < length xs \<and> (length xs \<le> ix \<or> xs ! ix \<noteq> x)))"

definition mode_ok :: "string \<Rightarrow> bool \<Rightarrow> bool" where
  "mode_ok m r = (if m = ''realtime'' then r else if m = ''playback'' then \<not> r else True)"

text \<open>The packets sent to the queue, and the error that ended the program.\<close>

fun vmucat_Packets :: "string \<Rightarrow> string \<Rightarrow> Channel list \<Rightarrow> read_result list \<Rightarrow> HRPacket list \<times> go_error option" where
  "vmucat_Packets mode src cs [] = ([], None)"
| "vmucat_Packets mode src cs (ReadFailed e # rs) = ([], Some e)"
| "vmucat_Packets mode src cs (ReadOther # rs) = vmucat_Packets mode src cs rs"
| "vmucat_Packets mode src cs (ReadPacket v # rs) =
     (if 0 < length src \<and> hr_Origin v \<noteq> src then vmucat_Packets mode src cs rs
      else if \<not> listed cs (hr_Stream v) then vmucat_Packets mode src cs rs
      else if \<not> mode_ok mode (hr_IsRealtime v) then vmucat_Packets mode src cs rs
      else let (ps, e) = vmucat_Packets mode src cs rs in (v # ps, e))"

fun vmuzip_Packets :: "string \<Rightarrow> string list \<Rightarrow> Channel list \<Rightarrow> read_result list \<Rightarrow> HRPacket list \<times> go_error option" where
  "vmuzip_Packets s fs cs [] = ([], None)"
| "vmuzip_Packets s fs cs (ReadFailed e # rs) = ([], Some e)"
| "vmuzip_Packets s fs cs (ReadOther # rs) = vmuzip_Packets s fs cs rs"
| "vmuzip_Packets s fs cs (ReadPacket v # rs) =
     (if \<not> listed fs (hr_Format v) then vmuzip_Packets s fs cs rs
      else if \<not> listed cs (hr_Stream v) then vmuzip_Packets s fs cs rs
      else if \<not> mode_ok s (hr_IsRealtime v) then vmuzip_Packets s fs cs rs
      else let (ps, e) = vmuzip_Packets s fs cs rs in (v # ps, e))"

section \<open>Counting\<close>

record Coze =
  cz_Count :: uint64
  cz_Size :: uint64

record Counter =
  ct_UPI :: string
  ct_Sources :: "(string \<times> Coze) list"

record cat_state =
  ca_count :: uint64
  ca_size :: uint64
  ca_counter :: "(string \<times> Counter) list"
  ca_lines :: "(HRPacket \<times> string \<times> string) list"

definition cat_start :: cat_state where
  "cat_start = \<lparr>ca_count = 0, ca_size = 0, ca_counter = [], ca_lines = []\<rparr>"

text \<open>The user of a packet, or \<open>None\<close> for packets of other types, which are skipped.\<close>

definition cat_upi :: "HRPacket \<Rightarrow> string option" where
  "cat_upi p =
     (case hr_kind p of
        Table (SDHv2 s) \<Rightarrow> Some (string_of_bytes (trim_zeros (sd_Info s)))
      | Table _ \<Rightarrow> Some ''-''
      | Image (IDHv1 bs) \<Rightarrow> Some (string_of_bytes (trim_zeros bs))
      | Image (IDHv2 i) \<Rightarrow> Some (string_of_bytes (trim_zeros (id_Info i)))
      | Image _ \<Rightarrow> Some ''-''
      | OtherPacket \<Rightarrow> None)"

definition count_source :: "HRPacket \<Rightarrow> (string \<times> Coze) list \<Rightarrow> (string \<times> Coze) list" where
  "count_source p ss =
     (let n = of_nat (length (hr_Payload p)) in
      case map_of ss (hr_Origin p) of
        None \<Rightarrow> AList.update (hr_Origin p) \<lparr>cz_Count = 1, cz_Size = n\<rparr> ss
      | Some z \<Rightarrow> AList.update (hr_Origin p) \<lparr>cz_Count = cz_Count z + 1, cz_Size = cz_Size z + n\<rparr> ss)"

text \<open>One round of the loop over the queue; \<open>valid\<close> is \<^verbatim>\<open>panda.Valid\<close>.\<close>

definition cat_packet :: "(HRPacket \<Rightarrow> bool) \<Rightarrow> string \<Rightarrow> bool \<Rightarrow> HRPacket \<Rightarrow> cat_state \<Rightarrow> cat_state" where
  "cat_packet valid info lst p st =
     (case cat_upi p of
        None \<Rightarrow> st
      | Some upi \<Rightarrow>
          if 0 < length info \<and> upi \<noteq> info then st
          else
            let c = (case map_of (ca_counter st) upi of
                       None \<Rightarrow> \<lparr>ct_UPI = upi, ct_Sources = []\<rparr> | Some c \<Rightarrow> c);
                c = c\<lparr>ct_Sources := count_source p (ct_Sources c)\<rparr>
            in st\<lparr>ca_counter := AList.update upi c (ca_counter st),
                  ca_lines := (if lst then ca_lines st @ [(p, upi, if valid p then ''-'' else ''corrupted'')] else ca_lines st),
                  ca_size := ca_size st + of_nat (length (hr_Payload p)),
                  ca_count := ca_count st + 1\<rparr>)"

definition vmucat_loop :: "(HRPacket \<Rightarrow> bool) \<Rightarrow> string \<Rightarrow> bool \<Rightarrow> HRPacket list \<Rightarrow> cat_state" where
  "vmucat_loop valid info lst ps = fold (cat_packet valid info lst) ps cat_start"

text \<open>The summary: the totals, in packets and megabytes, and without the list one row per user and source.\<close>

definition vmucat_summary :: "bool \<Rightarrow> cat_state \<Rightarrow> (uint64 \<times> uint64) \<times> (string \<times> string \<times> uint64 \<times> uint64) list" where
  "vmucat_summary lst st =
     ((ca_count st, drop_bit 20 (ca_size st)),
      if lst then []
      else concat (map (\<lambda>(u, c). map (\<lambda>(s, z). (s, ct_UPI c, cz_Count z, drop_bit 20 (cz_Size z))) (ct_Sources c)) (ca_counter st)))"

section \<open>Exporting\<close>

definition timePath :: "gotime \<Rightarrow> string" where
  "timePath t = Join [pad_int 4 (Year t), pad_int 3 (YearDay t), pad_int 2 (Hour t)]"

text \<open>Creating a file, exporting into it, and removing it when the export failed.\<close>

definition export_file :: "string \<Rightarrow> bytes outcome \<Rightarrow> fs \<Rightarrow> go_error option \<times> fs" where
  "export_file name ex f =
     (case WriteFile name (case ex of Inr bs \<Rightarrow> bs | Inl _ \<Rightarrow> []) f of
        (Some e, f) \<Rightarrow> (Some e, f)
      | (None, f) \<Rightarrow> (None, case ex of Inr _ \<Rightarrow> f | Inl _ \<Rightarrow> snd (Remove name f)))"

definition zip_dir :: "panda \<Rightarrow> string \<Rightarrow> HRPacket \<Rightarrow> string" where
  "zip_dir pa d p = Join [d, channel_String pa (hr_Stream p), hr_Format p, timePath (hr_Timestamp p)]"

text \<open>The goroutine of one packet.\<close>

definition zip_packet :: "panda \<Rightarrow> bool \<Rightarrow> bool \<Rightarrow> string \<Rightarrow> HRPacket \<Rightarrow> fs \<Rightarrow> fs" where
  "zip_packet pa flat raw d p f =
     (let (err, dir, f) =
        (if flat then (None, d, f)
         else case MkdirAll (zip_dir pa d p) f of
                (Some e, f) \<Rightarrow> (if \<not> IsExist e then Some e else None, zip_dir pa d p, f)
              | (None, f) \<Rightarrow> (None, zip_dir pa d p, f))
      in if err \<noteq> None then f
         else (case export_file (Join [dir, hr_Filename p]) (hr_Export p) f of
                 (Some e, f) \<Rightarrow> f
               | (None, f) \<Rightarrow>
                   if raw then snd (export_file (Join [dir, hr_Filename p @ ''.raw'']) (hr_ExportRaw p) f) else f))"

text \<open>
  The main loop: it takes packets from the queue until the limit, gets a place in the semaphore (a
  channel with \<open>parallel\<close> places) and starts a goroutine, which gives the place back when it ends.
  Without a place a goroutine is never started.
\<close>

record zip_state =
  zi_queue :: "HRPacket list"
  zi_curr :: nat
  zi_running :: "HRPacket list"
  zi_finished :: "HRPacket list"
  zi_fs :: fs

definition zip_start :: "HRPacket list \<Rightarrow> fs \<Rightarrow> zip_state" where
  "zip_start ps f = \<lparr>zi_queue = ps, zi_curr = 0, zi_running = [], zi_finished = [], zi_fs = f\<rparr>"

definition places :: "int \<Rightarrow> nat" where
  "places parallel = nat (if parallel < 0 then 0 else parallel)"

definition under_limit :: "int \<Rightarrow> nat \<Rightarrow> bool" where
  "under_limit limit n \<longleftrightarrow> \<not> (0 < limit \<and> limit \<le> int n)"

inductive zip_step :: "panda \<Rightarrow> bool \<Rightarrow> bool \<Rightarrow> string \<Rightarrow> int \<Rightarrow> int \<Rightarrow> zip_state \<Rightarrow> zip_state \<Rightarrow> bool"
  for pa flat raw d limit parallel where
  start: "zi_queue s = p # ps \<Longrightarrow> under_limit limit (zi_curr s) \<Longrightarrow> length (zi_running s) < places parallel \<Longrightarrow>
    zip_step pa flat raw d limit parallel s
      (s\<lparr>zi_queue := ps, zi_curr := zi_curr s + 1, zi_running := p # zi_running s\<rparr>)"
| finish: "zi_running s = as @ p # bs \<Longrightarrow>
    zip_step pa flat raw d limit parallel s
      (s\<lparr>zi_running := as @ bs, zi_finished := zi_finished s @ [p], zi_fs := zip_packet pa flat raw d p (zi_fs s)\<rparr>)"

definition zip_done :: "int \<Rightarrow> zip_state \<Rightarrow> bool" where
  "zip_done limit s \<longleftrightarrow> zi_running s = [] \<and> (zi_queue s = [] \<or> \<not> under_limit limit (zi_curr s))"

section \<open>The filters\<close>

lemma listed_descending:
  assumes "sorted_wrt (\<ge>) xs"
  shows "listed xs x \<longleftrightarrow> xs = [] \<or> x \<in> set xs"
  using descending.search_member [OF assms, of x] by (auto simp: listed_def Let_def not_le)

lemma listed_ascending:
  assumes "sorted_wrt (<) xs" and "2 \<le> length xs"
  shows "\<not> listed xs x"
proof -
  have less: "xs ! a \<le> xs ! b" if "a \<le> b" "b < length xs" for a b
    using that assms(1) by (cases "a = b") (auto simp: sorted_wrt_nth_less less_imp_le)
  have "sort_Search (length xs) (\<lambda>i. xs ! i \<le> x) = (if xs ! (length xs div 2) \<le> x \<and> 0 < length xs then 0 else length xs)"
    using less order_trans by (intro sort_Search_backwards) blast
  moreover have "xs ! 0 < xs ! (length xs div 2)"
    using assms by (intro sorted_wrt_nth_less [OF assms(1)]) auto
  ultimately show ?thesis using assms(2) by (auto simp: listed_def Let_def)
qed

lemma sorted_rev_sort: "sorted_wrt (\<ge>) (rev (sort_slice id (xs :: 'a::linorder list)))"
proof -
  have "sorted (sort_slice id xs)" using sorted_sort_slice [of id xs] by simp
  then show ?thesis by (simp add: sorted_wrt_rev)
qed

lemma append_channels_ok:
  "append_channels pa ns cs = (None, cs') \<Longrightarrow>
     \<exists>new. map (channel_named pa) ns = map Some new \<and> cs' = cs @ new"
proof (induction pa ns cs rule: append_channels.induct)
  case (2 pa n ns cs)
  then show ?case by (auto split: option.splits)
qed simp

lemma channels_Set_ok:
  assumes "channels_Set pa vs cs = (None, cs')"
  shows "sorted_wrt (\<ge>) cs' \<and> Some ` set cs' = Some ` set cs \<union> channel_named pa ` set (split_comma vs)"
proof -
  from assms obtain ds where ds: "append_channels pa (split_comma vs) cs = (None, ds)" "cs' = rev (sort_slice id ds)"
    by (auto simp: channels_Set_def split: prod.splits option.splits)
  from append_channels_ok [OF ds(1)] obtain new
    where "map (channel_named pa) (split_comma vs) = map Some new" "ds = cs @ new" by blast
  then have "channel_named pa ` set (split_comma vs) = Some ` set new" by (metis set_map)
  with \<open>ds = cs @ new\<close> ds(2) sorted_rev_sort [of ds] show ?thesis by auto
qed

lemma split_comma_nonempty: "split_comma s \<noteq> []"
  by (cases s) (auto split: list.splits)

definition packets_of :: "read_result list \<Rightarrow> HRPacket list" where
  "packets_of rs = concat (map (\<lambda>r. case r of ReadPacket p \<Rightarrow> [p] | _ \<Rightarrow> []) rs)"

lemma vmucat_Packets_filter:
  assumes "\<forall>e. ReadFailed e \<notin> set rs"
  shows "vmucat_Packets mode src cs rs =
    (filter (\<lambda>p. (src = [] \<or> hr_Origin p = src) \<and> listed cs (hr_Stream p) \<and> mode_ok mode (hr_IsRealtime p)) (packets_of rs), None)"
  using assms
proof (induction rs)
  case (Cons r rs)
  then show ?case by (cases r) (auto simp: packets_of_def)
qed (simp add: packets_of_def)

text \<open>
  C33. The packets \<^verbatim>\<open>vmucat\<close> works on are, in their order, exactly those of the archive that come from the
  source asked for, on one of the channels named on the command line and in the mode asked
  for, as long as the archive can be read.
\<close>

theorem vmucat_selects:
  assumes "channels_Set pa vs [] = (None, cs)" and "\<forall>e. ReadFailed e \<notin> set rs"
  shows "vmucat_Packets mode src cs rs =
    (filter (\<lambda>p. (src = [] \<or> hr_Origin p = src) \<and> Some (hr_Stream p) \<in> channel_named pa ` set (split_comma vs) \<and>
       mode_ok mode (hr_IsRealtime p)) (packets_of rs), None)"
proof -
  from channels_Set_ok [OF assms(1)] have cs: "sorted_wrt (\<ge>) cs" "Some ` set cs = channel_named pa ` set (split_comma vs)"
    by simp_all
  then have "set cs \<noteq> {}" using split_comma_nonempty [of vs] by fastforce
  moreover have "Some c \<in> Some ` set cs \<longleftrightarrow> c \<in> set cs" for c by auto
  ultimately have "listed cs c \<longleftrightarrow> Some c \<in> channel_named pa ` set (split_comma vs)" for c
    using listed_descending [OF cs(1)] cs(2) by auto
  then show ?thesis by (simp add: vmucat_Packets_filter [OF assms(2)])
qed

theorem vmucat_selects_witness:
  "\<exists>cs. channels_Set sample_panda ''vic1,lrsd'' [] = (None, cs) \<and>
     vmucat_Packets ''realtime'' ''36'' cs [ReadOther, ReadPacket sample_table] = ([sample_table], None)"
proof -
  have names: "split_comma ''vic1,lrsd'' = [''vic1'', ''lrsd'']" by code_simp
  have set: "channels_Set sample_panda ''vic1,lrsd'' [] = (None, [3, 1])"
    unfolding channels_Set_def names
    by (simp add: channel_named_def sample_panda_def sort_slice_def)
  have "vmucat_Packets ''realtime'' ''36'' [3, 1] [ReadOther, ReadPacket sample_table] = ([sample_table], None)"
    using vmucat_selects [OF set, of "[ReadOther, ReadPacket sample_table]" "''realtime''" "''36''"] names
    by (simp add: packets_of_def channel_named_def sample_panda_def sample_table_def mode_ok_def)
  with set show ?thesis by blast
qed

lemma vmuzip_Packets_unlisted:
  "(\<And>x. \<not> listed fs x) \<Longrightarrow> fst (vmuzip_Packets s fs cs rs) = []"
  by (induction s fs cs rs rule: vmuzip_Packets.induct) auto

text \<open>
  \<^verbatim>\<open>vmuzip\<close> sorts the formats in ascending order and searches them as if they were in descending
  order: as soon as two different formats are given on the command line, no packet at all is exported.
\<close>

theorem vmuzip_two_formats_export_nothing:
  assumes "distinct (map ToLower (split_comma vs))" and "2 \<le> length (split_comma vs)"
  shows "fst (vmuzip_Packets s (formats_Set vs []) cs rs) = []"
proof (rule vmuzip_Packets_unlisted)
  fix x
  have "distinct (formats_Set vs [])" using assms(1) by (simp add: formats_Set_def sort_slice_def)
  moreover have "sorted (formats_Set vs [])"
    using sorted_sort_slice [of id "map ToLower (split_comma vs)"] by (simp add: formats_Set_def)
  ultimately have "sorted_wrt (<) (formats_Set vs [])" by (simp add: strict_sorted_iff)
  then show "\<not> listed (formats_Set vs []) x"
    by (rule listed_ascending) (use assms(2) in \<open>simp add: formats_Set_def\<close>)
qed

theorem vmuzip_two_formats_witness:
  "fst (vmuzip_Packets '''' (formats_Set ''dat,PNG'' []) [] [ReadPacket sample_table]) = []"
  by (rule vmuzip_two_formats_export_nothing) code_simp+

section \<open>The counters\<close>

definition selected :: "string \<Rightarrow> HRPacket \<Rightarrow> bool" where
  "selected info p \<longleftrightarrow> (case cat_upi p of None \<Rightarrow> False | Some u \<Rightarrow> info = [] \<or> u = info)"

definition coze_of :: "cat_state \<Rightarrow> string \<Rightarrow> string \<Rightarrow> Coze option" where
  "coze_of st u s = Option.bind (map_of (ca_counter st) u) (\<lambda>c. map_of (ct_Sources c) s)"

definition payload_size :: "HRPacket list \<Rightarrow> nat" where
  "payload_size ps = sum_list (map (\<lambda>p. length (hr_Payload p)) ps)"

definition tally :: "HRPacket list \<Rightarrow> Coze option" where
  "tally ps = (if ps = [] then None else Some \<lparr>cz_Count = of_nat (length ps), cz_Size = of_nat (payload_size ps)\<rparr>)"

lemma map_of_count_source:
  "map_of (count_source p ss) s =
     (if s = hr_Origin p
      then Some (case map_of ss s of
          None \<Rightarrow> \<lparr>cz_Count = 1, cz_Size = of_nat (length (hr_Payload p))\<rparr>
        | Some z \<Rightarrow> \<lparr>cz_Count = cz_Count z + 1, cz_Size = cz_Size z + of_nat (length (hr_Payload p))\<rparr>)
      else map_of ss s)"
  by (simp add: count_source_def Let_def update_conv' split: option.split)

lemma coze_of_packet:
  "coze_of (cat_packet valid info lst p st) u s =
     (if selected info p \<and> cat_upi p = Some u \<and> hr_Origin p = s
      then Some (case coze_of st u s of
          None \<Rightarrow> \<lparr>cz_Count = 1, cz_Size = of_nat (length (hr_Payload p))\<rparr>
        | Some z \<Rightarrow> \<lparr>cz_Count = cz_Count z + 1, cz_Size = cz_Size z + of_nat (length (hr_Payload p))\<rparr>)
      else coze_of st u s)"
  by (cases "map_of (ca_counter st) u"; cases "cat_upi p")
    (auto simp: cat_packet_def selected_def coze_of_def Let_def update_conv' map_of_count_source)

lemma tally_snoc:
  "tally (ps @ [p]) = Some (case tally ps of
      None \<Rightarrow> \<lparr>cz_Count = 1, cz_Size = of_nat (length (hr_Payload p))\<rparr>
    | Some z \<Rightarrow> \<lparr>cz_Count = cz_Count z + 1, cz_Size = cz_Size z + of_nat (length (hr_Payload p))\<rparr>)"
  by (simp add: tally_def payload_size_def)

lemma vmucat_loop_snoc: "vmucat_loop valid info lst (ps @ [p]) = cat_packet valid info lst p (vmucat_loop valid info lst ps)"
  by (simp add: vmucat_loop_def)

lemma cat_packet_totals:
  "ca_count (cat_packet valid info lst p st) = (if selected info p then ca_count st + 1 else ca_count st)"
  "ca_size (cat_packet valid info lst p st) = (if selected info p then ca_size st + of_nat (length (hr_Payload p)) else ca_size st)"
  by (auto simp: cat_packet_def selected_def Let_def split: option.splits)

text \<open>
  The totals of \<^verbatim>\<open>vmucat\<close> are the number and the size of the packets selected, and its table has, for every
  user and source, the number and the size of the selected packets of that user and source
  and no row when there is none; all modulo \<open>2 ^ 64\<close>.
\<close>

theorem vmucat_accounting:
  "ca_count (vmucat_loop valid info lst ps) = of_nat (length (filter (selected info) ps)) \<and>
   ca_size (vmucat_loop valid info lst ps) = of_nat (payload_size (filter (selected info) ps)) \<and>
   coze_of (vmucat_loop valid info lst ps) u s =
     tally (filter (\<lambda>p. selected info p \<and> cat_upi p = Some u \<and> hr_Origin p = s) ps)"
proof (induction ps rule: rev_induct)
  case Nil
  show ?case by (simp add: vmucat_loop_def cat_start_def payload_size_def coze_of_def tally_def)
next
  case (snoc p ps)
  then show ?case by (simp add: vmucat_loop_snoc cat_packet_totals coze_of_packet tally_snoc payload_size_def)
qed

section \<open>The workers\<close>

definition zip_inv :: "int \<Rightarrow> int \<Rightarrow> HRPacket list \<Rightarrow> zip_state \<Rightarrow> bool" where
  "zip_inv limit parallel ps s \<longleftrightarrow>
     zi_queue s = drop (zi_curr s) ps \<and> zi_curr s \<le> length ps \<and> (0 < limit \<longrightarrow> int (zi_curr s) \<le> limit) \<and>
     length (zi_running s) \<le> places parallel \<and>
     mset (zi_running s) + mset (zi_finished s) = mset (take (zi_curr s) ps)"

lemma zip_inv_start: "zip_inv limit parallel ps (zip_start ps f)"
  by (simp add: zip_inv_def zip_start_def)

lemma zip_inv_step:
  assumes "zip_step pa flat raw d limit parallel s s'" and "zip_inv limit parallel ps s"
  shows "zip_inv limit parallel ps s'"
  using assms
proof (induction rule: zip_step.induct)
  case (start s p qs)
  then have q: "drop (zi_curr s) ps = p # qs" by (simp add: zip_inv_def)
  then have "zi_curr s < length ps" by (metis drop_all list.distinct(1) not_le)
  moreover from this q have "ps ! zi_curr s = p" "drop (Suc (zi_curr s)) ps = qs"
    by (metis Cons_nth_drop_Suc list.inject)+
  ultimately show ?case
    using start by (auto simp: zip_inv_def under_limit_def take_Suc_conv_app_nth ac_simps)
next
  case (finish s as p bs)
  then show ?case by (auto simp: zip_inv_def ac_simps)
qed

lemma zip_inv_reach:
  "(zip_step pa flat raw d limit parallel)\<^sup>*\<^sup>* (zip_start ps f) s \<Longrightarrow> zip_inv limit parallel ps s"
  by (induction rule: rtranclp_induct) (auto intro: zip_inv_start zip_inv_step)

lemma zip_progress:
  assumes "0 < parallel" and "\<not> zip_done limit s" and "length (zi_running s) \<le> places parallel"
  shows "\<exists>s'. zip_step pa flat raw d limit parallel s s'"
proof (cases "zi_running s")
  case (Cons p rs)
  then show ?thesis by (metis append_Nil zip_step.finish)
next
  case Nil
  with assms(2) obtain p ps where "zi_queue s = p # ps" "under_limit limit (zi_curr s)"
    by (cases "zi_queue s") (auto simp: zip_done_def)
  moreover have "length (zi_running s) < places parallel" using Nil assms(1) by (simp add: places_def)
  ultimately show ?thesis using zip_step.start by blast
qed

lemma zip_step_decreases:
  "zip_step pa flat raw d limit parallel s s' \<Longrightarrow>
     2 * length (zi_queue s') + length (zi_running s') < 2 * length (zi_queue s) + length (zi_running s)"
  by (induction rule: zip_step.induct) auto

text \<open>
  With at least one worker, \<^verbatim>\<open>vmuzip\<close> works off its queue up to the limit.
\<close>

lemma zip_exports:
  assumes "0 < parallel" and "(zip_step pa flat raw d limit parallel)\<^sup>*\<^sup>* (zip_start ps f) s"
  shows "int (length (zi_running s)) \<le> parallel \<and>
    (zip_done limit s \<or> (\<exists>s'. zip_step pa flat raw d limit parallel s s')) \<and>
    (\<forall>s'. zip_step pa flat raw d limit parallel s s' \<longrightarrow>
       2 * length (zi_queue s') + length (zi_running s') < 2 * length (zi_queue s) + length (zi_running s)) \<and>
    (zip_done limit s \<longrightarrow>
       mset (zi_finished s) = mset (take (if 0 < limit then nat limit else length ps) ps))"
proof -
  have inv: "zip_inv limit parallel ps s" by (rule zip_inv_reach [OF assms(2)])
  then have run: "length (zi_running s) \<le> places parallel" by (simp add: zip_inv_def)
  have "mset (zi_finished s) = mset (take (if 0 < limit then nat limit else length ps) ps)" if "zip_done limit s"
  proof -
    have fin: "mset (zi_finished s) = mset (take (zi_curr s) ps)" using inv that by (simp add: zip_inv_def zip_done_def)
    from that consider "zi_queue s = []" | "\<not> under_limit limit (zi_curr s)" by (auto simp: zip_done_def)
    then show ?thesis
    proof cases
      case 1
      with inv have "zi_curr s = length ps" "0 < limit \<longrightarrow> length ps \<le> nat limit"
        by (auto simp: zip_inv_def)
      with fin show ?thesis by simp
    next
      case 2
      with inv have "0 < limit" "zi_curr s = nat limit" by (auto simp: zip_inv_def under_limit_def)
      with fin show ?thesis by simp
    qed
  qed
  moreover have "int (length (zi_running s)) \<le> parallel" using run assms(1) by (simp add: places_def)
  ultimately show ?thesis
    using zip_progress [OF assms(1) _ run] zip_step_decreases by blast
qed

text \<open>
  With no worker, \<^verbatim>\<open>-p 0\<close> or a negative number, \<^verbatim>\<open>vmuzip\<close> waits forever for a place in a channel that has none: a
  queue that is not empty leaves the program stuck, with nothing exported.
\<close>

theorem vmuzip_no_worker_stuck:
  assumes "parallel \<le> 0" and "ps \<noteq> []"
    and "(zip_step pa flat raw d limit parallel)\<^sup>*\<^sup>* (zip_start ps f) s"
  shows "s = zip_start ps f \<and> \<not> zip_done limit s \<and> (\<nexists>s'. zip_step pa flat raw d limit parallel s s')"
proof -
  have stuck: "\<not> zip_step pa flat raw d limit parallel (zip_start ps f) s'" for s'
    using assms(1) by (auto simp: zip_start_def places_def elim!: zip_step.cases)
  with assms(3) have "s = zip_start ps f" by (metis converse_rtranclpE)
  with stuck assms(2) show ?thesis by (auto simp: zip_done_def zip_start_def under_limit_def)
qed

theorem vmuzip_no_worker_stuck_witness:
  "\<nexists>s'. zip_step sample_panda True False ''/out'' 0 0 (zip_start [sample_table] empty_fs) s'"
  using vmuzip_no_worker_stuck [of 0 "[sample_table]" sample_panda True False "''/out''" 0 empty_fs "zip_start [sample_table] empty_fs"]
  by simp

text \<open>A packet whose export succeeds is in its file, one whose export fails leaves no file.\<close>

lemma zip_packet_flat:
  assumes "\<not> is_link f (locate (Join [d, hr_Filename p]))"
    and "WriteFile (Join [d, hr_Filename p]) (case hr_Export p of Inr bs \<Rightarrow> bs | Inl _ \<Rightarrow> []) f = (None, f')"
  shows "case hr_Export p of
      Inr bs \<Rightarrow> holds (zip_packet pa True False d p f) (locate (Join [d, hr_Filename p])) bs
    | Inl _ \<Rightarrow> node_at (zip_packet pa True False d p f) (locate (Join [d, hr_Filename p])) = None"
proof (cases "hr_Export p")
  case (Inr bs)
  with WriteFile_holds [OF assms(1), of bs f'] assms(2) show ?thesis
    by (simp add: zip_packet_def export_file_def)
next
  case (Inl e)
  with WriteFile_holds [OF assms(1), of "[]" f'] assms(2) have "holds f' (locate (Join [d, hr_Filename p])) []" by simp
  then have "node_at f' (locate (Join [d, hr_Filename p])) \<noteq> Some Dir" by (auto simp: holds_def)
  with Inl assms(2) Remove_gone show ?thesis by (simp add: zip_packet_def export_file_def)
qed

end
