(* ===== verification/Vmu_Commands.thy ===== *)
theory Vmu_Commands
  imports Vmutools
begin

text \<open>
  The programs \<^verbatim>\<open>src/cmd/vmucat\<close> and \<^verbatim>\<open>src/cmd/vmuzip\<close> from their command lines on. The flags are the values that
  package flag hands to the variables, in the order of the command line; an error of a value ends the program. What package
  panda finds in the archive is the input.
\<close>

section \<open>Flags\<close>

datatype cat_flag = CatChannels string | CatMode string | CatList bool | CatInfo string | CatSource string | CatVersion int

record cat_options =
  co_channels :: "Channel list"
  co_mode :: string
  co_list :: bool
  co_info :: string
  co_source :: string
  co_version :: int

definition cat_defaults :: "panda \<Rightarrow> cat_options" where
  "cat_defaults pa = \<lparr>co_channels = [], co_mode = '''', co_list = False, co_info = '''', co_source = '''',
     co_version = VMUProtocol2 pa\<rparr>"

definition cat_flag_Set :: "panda \<Rightarrow> cat_flag \<Rightarrow> cat_options \<Rightarrow> cat_options outcome" where
  "cat_flag_Set pa v co =
     (case v of
        CatChannels s \<Rightarrow> (case channels_Set pa s (co_channels co) of (Some e, _) \<Rightarrow> Inl e | (None, cs) \<Rightarrow> Inr (co\<lparr>co_channels := cs\<rparr>))
      | CatMode s \<Rightarrow> (case mode_Set s (co_mode co) of (Some e, _) \<Rightarrow> Inl e | (None, m) \<Rightarrow> Inr (co\<lparr>co_mode := m\<rparr>))
      | CatList b \<Rightarrow> Inr (co\<lparr>co_list := b\<rparr>)
      | CatInfo s \<Rightarrow> Inr (co\<lparr>co_info := s\<rparr>)
      | CatSource s \<Rightarrow> Inr (co\<lparr>co_source := s\<rparr>)
      | CatVersion n \<Rightarrow> Inr (co\<lparr>co_version := n\<rparr>))"

text \<open>\<^verbatim>\<open>source.Set\<close> of vmuzip.\<close>

definition source_Set :: "string \<Rightarrow> string \<Rightarrow> go_error option \<times> string" where
  "source_Set v s =
     (if v = ''realtime'' \<or> v = ''playback'' \<or> v = '''' \<or> v = ''*'' then (None, v)
      else (Some (Errorf ''unknown source %q''), s))"

text \<open>\<^verbatim>\<open>channels.Set\<close> of vmuzip, whose constants are those of the same package under its older name.\<close>

definition zip_channels_Set :: "panda \<Rightarrow> string \<Rightarrow> Channel list \<Rightarrow> go_error option \<times> Channel list" where
  "zip_channels_Set pa vs cs =
     (case append_channels pa (split_comma vs) cs of
        (Some e, cs) \<Rightarrow> (Some e, cs)
      | (None, cs) \<Rightarrow> (None, rev (sort_slice id cs)))"

datatype zip_flag =
    ZipFormats string | ZipChannels string | ZipSource string | ZipParallel int | ZipVersion int | ZipLimit int | ZipFlat bool | ZipRaw bool

record zip_options =
  zo_formats :: "string list"
  zo_channels :: "Channel list"
  zo_source :: string
  zo_parallel :: int
  zo_version :: int
  zo_limit :: int
  zo_flat :: bool
  zo_raw :: bool

definition zip_defaults :: "panda \<Rightarrow> zip_options" where
  "zip_defaults pa = \<lparr>zo_formats = [], zo_channels = [], zo_source = '''', zo_parallel = 4, zo_version = VMUProtocol2 pa, zo_limit = 0,
     zo_flat = False, zo_raw = False\<rparr>"

definition zip_flag_Set :: "panda \<Rightarrow> zip_flag \<Rightarrow> zip_options \<Rightarrow> zip_options outcome" where
  "zip_flag_Set pa v zo =
     (case v of
        ZipFormats s \<Rightarrow> Inr (zo\<lparr>zo_formats := formats_Set s (zo_formats zo)\<rparr>)
      | ZipChannels s \<Rightarrow>
          (case zip_channels_Set pa s (zo_channels zo) of (Some e, _) \<Rightarrow> Inl e | (None, cs) \<Rightarrow> Inr (zo\<lparr>zo_channels := cs\<rparr>))
      | ZipSource s \<Rightarrow> (case source_Set s (zo_source zo) of (Some e, _) \<Rightarrow> Inl e | (None, m) \<Rightarrow> Inr (zo\<lparr>zo_source := m\<rparr>))
      | ZipParallel n \<Rightarrow> Inr (zo\<lparr>zo_parallel := n\<rparr>)
      | ZipVersion n \<Rightarrow> Inr (zo\<lparr>zo_version := n\<rparr>)
      | ZipLimit n \<Rightarrow> Inr (zo\<lparr>zo_limit := n\<rparr>)
      | ZipFlat b \<Rightarrow> Inr (zo\<lparr>zo_flat := b\<rparr>)
      | ZipRaw b \<Rightarrow> Inr (zo\<lparr>zo_raw := b\<rparr>))"

section \<open>The programs\<close>

text \<open>
  \<open>decode\<close> is \<^verbatim>\<open>panda.DecodeHR\<close> and \<open>walk\<close> the reader over the archive, or their errors. When a
  read fails vmucat ends at once and prints no summary (the lines of \<^verbatim>\<open>-l\<close> are not part of the result).
\<close>

definition vmucat_main ::
  "panda \<Rightarrow> (HRPacket \<Rightarrow> bool) \<Rightarrow> (int \<Rightarrow> 'd outcome) \<Rightarrow> (string \<Rightarrow> 'd \<Rightarrow> read_result list outcome) \<Rightarrow> cat_flag list \<Rightarrow> string \<Rightarrow>
   ((uint64 \<times> uint64) \<times> (string \<times> string \<times> uint64 \<times> uint64) list) outcome" where
  "vmucat_main pa valid decode walk vs arg =
     (case parse_flags (cat_flag_Set pa) vs (cat_defaults pa) of
        Inl e \<Rightarrow> Inl e
      | Inr co \<Rightarrow>
          (case decode (co_version co) of
             Inl e \<Rightarrow> Inl e
           | Inr d \<Rightarrow>
               (case walk arg d of
                  Inl e \<Rightarrow> Inl e
                | Inr rs \<Rightarrow>
                    (case vmucat_Packets (co_mode co) (co_source co) (co_channels co) rs of
                       (_, Some e) \<Rightarrow> Inl e
                     | (ps, None) \<Rightarrow> Inr (vmucat_summary (co_list co) (vmucat_loop valid (co_info co) (co_list co) ps))))))"

text \<open>
  The state in which vmuzip starts its loop, with the options that its workers use. When a read fails the queue holds the
  packets before it, and the error ends the program at some point of the steps that work on them, unless the limit is
  reached first.
\<close>

definition vmuzip_main ::
  "panda \<Rightarrow> (int \<Rightarrow> 'd outcome) \<Rightarrow> (string \<Rightarrow> 'd \<Rightarrow> read_result list outcome) \<Rightarrow> zip_flag list \<Rightarrow> string \<Rightarrow> fs \<Rightarrow>
   (zip_options \<times> zip_state \<times> go_error option) outcome" where
  "vmuzip_main pa decode walk vs arg f =
     (case parse_flags (zip_flag_Set pa) vs (zip_defaults pa) of
        Inl e \<Rightarrow> Inl e
      | Inr zo \<Rightarrow>
          (case decode (zo_version zo) of
             Inl e \<Rightarrow> Inl e
           | Inr d \<Rightarrow>
               (case walk arg d of
                  Inl e \<Rightarrow> Inl e
                | Inr rs \<Rightarrow>
                    let (ps, err) = vmuzip_Packets (zo_source zo) (zo_formats zo) (zo_channels zo) rs in
                    Inr (zo, zip_start ps f, err))))"

section \<open>Properties\<close>

lemma cat_channels_descending:
  assumes "parse_flags (cat_flag_Set pa) vs (cat_defaults pa) = Inr co"
  shows "sorted_wrt (\<ge>) (co_channels co)"
proof (rule parse_flags_inv [where P = "\<lambda>co. sorted_wrt (\<ge>) (co_channels co)", OF _ _ assms])
  fix v o1 o2 assume "sorted_wrt (\<ge>) (co_channels o1)" and "cat_flag_Set pa v o1 = Inr o2"
  then show "sorted_wrt (\<ge>) (co_channels o2)"
    by (cases v) (auto simp: cat_flag_Set_def split: prod.splits option.splits dest: channels_Set_ok)
qed (simp add: cat_defaults_def)

text \<open>
  However often the flags are repeated and whatever their order, vmucat counts exactly the packets of the channels, the source
  and the mode that its options ask for.
\<close>

theorem vmucat_main_counts:
  assumes "parse_flags (cat_flag_Set pa) vs (cat_defaults pa) = Inr co" and "decode (co_version co) = Inr d"
    and "walk arg d = Inr rs" and "\<forall>e. ReadFailed e \<notin> set rs"
  shows "vmucat_main pa valid decode walk vs arg =
    Inr (vmucat_summary (co_list co) (vmucat_loop valid (co_info co) (co_list co)
      (filter (\<lambda>p. (co_source co = [] \<or> hr_Origin p = co_source co) \<and> (co_channels co = [] \<or> hr_Stream p \<in> set (co_channels co)) \<and>
         mode_ok (co_mode co) (hr_IsRealtime p)) (packets_of rs))))"
  using assms(1-3) listed_descending [OF cat_channels_descending [OF assms(1)]]
  by (simp add: vmucat_main_def vmucat_Packets_filter [OF assms(4)])

theorem vmucat_main_counts_witness:
  "vmucat_main sample_panda (\<lambda>_. True) Inr (\<lambda>_ _. Inr [ReadPacket sample_table]) [CatSource ''36''] ''archive'' =
    Inr (vmucat_summary False (vmucat_loop (\<lambda>_. True) '''' False [sample_table]))"
proof -
  have "parse_flags (cat_flag_Set sample_panda) [CatSource ''36''] (cat_defaults sample_panda) =
      Inr ((cat_defaults sample_panda)\<lparr>co_source := ''36''\<rparr>)" by (simp add: cat_flag_Set_def)
  from vmucat_main_counts [OF this, of Inr 2 "\<lambda>_ _. Inr [ReadPacket sample_table]" _ "[ReadPacket sample_table]" "\<lambda>_. True"]
  show ?thesis by (simp add: cat_defaults_def sample_panda_def packets_of_def sample_table_def mode_ok_def)
qed

lemma zip_channels_Set_same: "zip_channels_Set = channels_Set"
  by (simp add: fun_eq_iff zip_channels_Set_def channels_Set_def)

lemma vmuzip_Packets_filter:
  assumes "\<forall>e. ReadFailed e \<notin> set rs"
  shows "vmuzip_Packets s fs cs rs =
    (filter (\<lambda>p. listed fs (hr_Format p) \<and> listed cs (hr_Stream p) \<and> mode_ok s (hr_IsRealtime p)) (packets_of rs), None)"
  using assms
proof (induction rs)
  case (Cons r rs)
  then show ?case by (cases r) (auto simp: packets_of_def)
qed (simp add: packets_of_def)

lemma zip_channels_descending:
  assumes "parse_flags (zip_flag_Set pa) vs (zip_defaults pa) = Inr zo"
  shows "sorted_wrt (\<ge>) (zo_channels zo)"
proof (rule parse_flags_inv [where P = "\<lambda>zo. sorted_wrt (\<ge>) (zo_channels zo)", OF _ _ assms])
  fix v o1 o2 assume "sorted_wrt (\<ge>) (zo_channels o1)" and "zip_flag_Set pa v o1 = Inr o2"
  then show "sorted_wrt (\<ge>) (zo_channels o2)"
    by (cases v) (auto simp: zip_flag_Set_def zip_channels_Set_same split: prod.splits option.splits dest: channels_Set_ok)
qed (simp add: zip_defaults_def)

lemma listed_single: "length xs \<le> 1 \<Longrightarrow> listed xs x \<longleftrightarrow> xs = [] \<or> x \<in> set xs"
  by (rule listed_descending) (cases xs, auto)



end
