(* ===== verification/Science.thy ===== *)
theory Science
  imports Go_Reader Go_Time
begin

text \<open>
  Export of science data as tables (\<^verbatim>\<open>src/internal/science\<close>). A table is a list of rows of
  fields; the first error ends the export. The formatting of times and of floating point numbers
  is a parameter.
\<close>

type_synonym row = "string list"

definition syncChunkLength :: int where "syncChunkLength = 18"

definition lrsdChunkLength :: int where "lrsdChunkLength = 32"

text \<open>\<open>read_fields k m r\<close> reads \<open>k\<close> values and formats them.\<close>

fun read_fields :: "nat \<Rightarrow> 'a rd \<Rightarrow> ('a \<Rightarrow> string) \<Rightarrow> string list rd" where
  "read_fields 0 m f = rd_return []"
| "read_fields (Suc k) m f = rd_bind m (\<lambda>x. rd_bind (read_fields k m f) (\<lambda>xs. rd_return (f x # xs)))"

definition sync_row :: "string \<Rightarrow> int \<Rightarrow> int \<Rightarrow> row rd" where
  "sync_row t i sz =
     rd_bind (read_fields 2 read_u8 (\<lambda>x. Itoa (uint x))) (\<lambda>as.
     rd_bind (read_fields 2 read_u64 (\<lambda>x. Itoa (sint x))) (\<lambda>bs.
     rd_return ([t, Itoa i, Itoa (sz div syncChunkLength)] @ as @ bs)))"

definition science_row :: "string \<Rightarrow> int \<Rightarrow> int \<Rightarrow> row rd" where
  "science_row t i sz =
     rd_bind (read_fields 32 read_u16 (\<lambda>x. Itoa (uint x))) (\<lambda>vs.
     rd_return ([t, Itoa i, Itoa (sz div lrsdChunkLength)] @ vs))"

lemma advances_read_fields [read_rules]: "advances m \<Longrightarrow> advances (read_fields k m f)"
proof (induction k)
  case 0
  show ?case by (simp only: read_fields.simps) (rule advances_return)
next
  case (Suc k)
  then have "advances (read_fields k m f)" by blast
  with Suc.prems show ?case by (simp only: read_fields.simps) (intro advances_bind advances_return)
qed

lemma strict_read_fields: "strict_read m \<Longrightarrow> advances m \<Longrightarrow> 0 < k \<Longrightarrow> strict_read (read_fields k m f)"
  by (cases k) (auto intro!: strict_read_bind advances_bind advances_read_fields advances_return)

lemma sync_row_strict: "strict_read (sync_row t i sz)"
  unfolding sync_row_def by (intro strict_read_bind strict_read_fields strict_read_be read_rules) simp_all

lemma science_row_strict: "strict_read (science_row t i sz)"
  unfolding science_row_def by (intro strict_read_bind strict_read_fields strict_read_be read_rules) simp_all

text \<open>The loops over a reader until it is empty; every row takes a byte, so that they end.\<close>

function sync_loop :: "string \<Rightarrow> int \<Rightarrow> int \<Rightarrow> reader \<Rightarrow> row list \<Rightarrow> row list outcome" where
  "sync_loop t sz i r acc =
     (if rbuf r = [] then Inr acc
      else (case sync_row t i sz r of
              (Inl e, r') \<Rightarrow> Inl e
            | (Inr x, r') \<Rightarrow> sync_loop t sz (i + 1) r' (acc @ [x])))"
  by pat_completeness auto
termination
  by (relation "measure (\<lambda>(t, sz, i, r, acc). length (rbuf r))")
    (use sync_row_strict [unfolded strict_read_def] in \<open>auto, metis\<close>)

function science_loop :: "string \<Rightarrow> int \<Rightarrow> int \<Rightarrow> reader \<Rightarrow> row list \<Rightarrow> row list outcome" where
  "science_loop t sz i r acc =
     (if rbuf r = [] then Inr acc
      else (case science_row t i sz r of
              (Inl e, r') \<Rightarrow> Inl e
            | (Inr x, r') \<Rightarrow> science_loop t sz (i + 1) r' (acc @ [x])))"
  by pat_completeness auto
termination
  by (relation "measure (\<lambda>(t, sz, i, r, acc). length (rbuf r))")
    (use science_row_strict [unfolded strict_read_def] in \<open>auto, metis\<close>)

declare sync_loop.simps [simp del] science_loop.simps [simp del]

definition ExportSyncUnit :: "string \<Rightarrow> bytes \<Rightarrow> row list outcome" where
  "ExportSyncUnit t bs = sync_loop t (int (length bs)) 1 (source bs EOF) []"

definition ExportScienceData :: "string \<Rightarrow> bytes \<Rightarrow> row list outcome" where
  "ExportScienceData t bs = science_loop t (int (length bs)) 1 (source bs EOF) []"

section \<open>SVS data\<close>

definition metaLength :: nat where "metaLength = 74"

definition svsMagic :: byte where "svsMagic = 0x90"

definition svs_header_field :: "uint16 \<Rightarrow> string" where
  "svs_header_field v = ''g2(t, '' @ Itoa (uint v) @ '')''"

definition svs_row :: "(uint32 \<Rightarrow> string) \<Rightarrow> nat \<Rightarrow> int \<Rightarrow> row rd" where
  "svs_row FormatFloat n i =
     rd_bind (read_fields n (read_le 4) FormatFloat) (\<lambda>vs. rd_return (Itoa i # vs))"

text \<open>
  The rows written, with the error that ended the loop. With no column a row takes no byte, and the loop may
  never end.
\<close>

partial_function (option) svs_loop ::
  "(uint32 \<Rightarrow> string) \<Rightarrow> nat \<Rightarrow> int \<Rightarrow> reader \<Rightarrow> row list \<Rightarrow> (row list \<times> go_error option) option" where
  "svs_loop FormatFloat n i r acc =
     (if rbuf r = [] then Some (acc, None)
      else (case svs_row FormatFloat n i r of
              (Inl e, r') \<Rightarrow> Some (acc, Some e)
            | (Inr x, r') \<Rightarrow> svs_loop FormatFloat n (i + 1) r' (acc @ [x])))"

declare svs_loop.simps [code]

datatype svs_result = SvsRaw bytes | SvsTable "row list outcome" | SvsPanic

text \<open>The table behind the metadata: the number of columns, their names, the rows.\<close>

definition svs_table :: "(uint32 \<Rightarrow> string) \<Rightarrow> reader \<Rightarrow> (row list \<times> go_error option) option" where
  "svs_table FormatFloat r =
     (case read_u8 r of
        (Inl e, r) \<Rightarrow> Some ([], Some e)
      | (Inr n, r) \<Rightarrow>
          (case read_fields (unat n) (read_le 2) svs_header_field r of
             (Inl e, r) \<Rightarrow> Some ([], Some e)
           | (Inr hdr, r) \<Rightarrow> svs_loop FormatFloat (unat n) 0 r [''t'' # hdr]))"

definition ExportSVSData :: "(uint32 \<Rightarrow> string) \<Rightarrow> bytes \<Rightarrow> svs_result option" where
  "ExportSVSData FormatFloat bs =
     (if bs = [] then Some SvsPanic
      else if bs ! 0 \<noteq> svsMagic then Some (SvsRaw bs)
      else if length bs < metaLength then Some SvsPanic
      else map_option (\<lambda>(rows, err). SvsTable (case err of None \<Rightarrow> Inr rows | Some e \<Rightarrow> Inl e))
             (svs_table FormatFloat (source (drop metaLength bs) EOF)))"

section \<open>Properties\<close>

lemma read_fields_put:
  assumes "\<And>x rest e. m (source (put x @ rest) e) = (Inr x, source rest e)"
  shows "read_fields (length xs) m f (source (concat (map put xs) @ rest) e) = (Inr (map f xs), source rest e)"
  by (induction xs) (simp_all add: assms)

lemma science_row_put:
  assumes "length xs = 32"
  shows "science_row t i sz (source (concat (map be16 xs) @ rest) e) =
    (Inr ([t, Itoa i, Itoa (sz div 32)] @ map (\<lambda>x. Itoa (uint x)) xs), source rest e)"
  using read_fields_put [of read_u16 be16 xs "\<lambda>x. Itoa (uint x)" rest e, OF u16_be.get_put [OF TrueI]] assms
  by (simp add: science_row_def lrsdChunkLength_def)

lemma length_concat_be16 [simp]: "length (concat (map be16 xs)) = 2 * length xs"
  by (induction xs) simp_all

lemma science_loop_step:
  assumes "length xs = 32"
  shows "science_loop t sz i (source (concat (map be16 xs) @ rest) e) acc =
      science_loop t sz (i + 1) (source rest e) (acc @ [[t, Itoa i, Itoa (sz div 32)] @ map (\<lambda>x. Itoa (uint x)) xs])"
proof -
  have "length (concat (map be16 xs) @ rest) \<noteq> 0" using assms by simp
  then have "concat (map be16 xs) @ rest \<noteq> []" by (simp only: length_0_conv not_False_eq_True)
  then show ?thesis
    by (subst science_loop.simps) (simp only: science_row_put [OF assms] reader.simps if_False prod.case sum.case)
qed

lemma export_science:
  assumes "\<forall>xs\<in>set rows. length xs = 32"
  shows "science_loop t sz i (source (concat (map (\<lambda>xs. concat (map be16 xs)) rows)) e) acc =
    Inr (acc @ map (\<lambda>k. [t, Itoa (i + int k), Itoa (sz div 32)] @ map (\<lambda>x. Itoa (uint x)) (rows ! k)) [0..<length rows])"
  using assms
proof (induction rows arbitrary: i acc)
  case Nil
  show ?case by (subst science_loop.simps) simp
next
  case (Cons xs rows)
  have up: "[0..<Suc (length rows)] = 0 # map Suc [0..<length rows]"
    by (simp add: upt_conv_Cons map_Suc_upt del: upt_Suc)
  have "length xs = 32" using Cons.prems by simp
  with Cons show ?case by (simp add: science_loop_step up add.assoc del: upt_Suc)
qed

text \<open>
  Science data made of rows of 32 words is exported row by row, numbered from one, with
  all its values; but the third column, meant to be the number of rows, is twice that number, because the
  chunk length counts the words of a row and not its bytes.
\<close>

theorem ExportScienceData_rows:
  assumes "\<forall>xs\<in>set rows. length xs = 32"
  shows "ExportScienceData t (concat (map (\<lambda>xs. concat (map be16 xs)) rows)) =
    Inr (map (\<lambda>k. [t, Itoa (1 + int k), Itoa (2 * int (length rows))] @ map (\<lambda>x. Itoa (uint x)) (rows ! k)) [0..<length rows])"
proof -
  have "length (concat (map (\<lambda>xs. concat (map be16 xs)) rows)) = 64 * length rows"
    using assms by (induction rows) simp_all
  then show ?thesis
    using export_science [OF assms, of t "64 * int (length rows)" 1 EOF "[]"] by (simp add: ExportScienceData_def)
qed

theorem ExportScienceData_rows_witness:
  "ExportScienceData ''t'' (concat (map (\<lambda>xs. concat (map be16 xs)) [replicate 32 7])) =
    Inr (map (\<lambda>k. [''t'', Itoa (1 + int k), Itoa (2 * int (length [replicate 32 (7 :: uint16)]))] @
      map (\<lambda>x. Itoa (uint x)) ([replicate 32 (7 :: uint16)] ! k)) [0..<length [replicate 32 (7 :: uint16)]])"
  by (rule ExportScienceData_rows) simp

lemma svs_loop_spins: "rbuf r \<noteq> [] \<Longrightarrow> svs_loop FormatFloat 0 i r acc = None"
proof (rule ccontr)
  assume ne: "rbuf r \<noteq> []" and "svs_loop FormatFloat 0 i r acc \<noteq> None"
  then obtain out where ret: "svs_loop FormatFloat 0 i r acc = Some out" by blast
  have "(0 :: nat) \<noteq> 0 \<or> rbuf r = []"
  proof (rule svs_loop.raw_induct [where P = "\<lambda>ff n i r acc out. n \<noteq> 0 \<or> rbuf r = []", OF _ ret])
    fix loop ff n i r acc out
    assume IH: "\<And>ff n i r acc out. loop ff n i r acc = Some out \<Longrightarrow> n \<noteq> 0 \<or> rbuf r = []"
      and eq: "(if rbuf r = [] then Some (acc, None)
        else (case svs_row ff n i r of (Inl e, r') \<Rightarrow> Some (acc, Some e)
              | (Inr x, r') \<Rightarrow> loop ff n (i + 1) r' (acc @ [x]))) = Some out"
    show "n \<noteq> 0 \<or> rbuf r = []"
    proof (rule ccontr)
      assume "\<not> (n \<noteq> 0 \<or> rbuf r = [])"
      with eq have "loop ff 0 (i + 1) r (acc @ [[Itoa i]]) = Some out"
        by (simp add: svs_row_def)
      with IH \<open>\<not> (n \<noteq> 0 \<or> rbuf r = [])\<close> show False by blast
    qed
  qed
  with ne show False by simp
qed

lemma svs_row_strict: "0 < n \<Longrightarrow> strict_read (svs_row FormatFloat n i)"
proof -
  assume "0 < n"
  have "strict_read (read_le 4 :: uint32 rd)"
    unfolding read_le_def by (intro strict_read_bind strict_read_ReadFull read_rules) simp
  with \<open>0 < n\<close> show ?thesis
    unfolding svs_row_def by (intro strict_read_bind strict_read_fields read_rules)
qed

lemma svs_loop_returns: "0 < n \<Longrightarrow> \<exists>res. svs_loop FormatFloat n i r acc = Some res"
proof (induction "length (rbuf r)" arbitrary: i r acc rule: less_induct)
  case less
  show ?case
  proof (cases "rbuf r = []")
    case True
    then show ?thesis by (subst svs_loop.simps) simp
  next
    case False
    show ?thesis
    proof (cases "fst (svs_row FormatFloat n i r)")
      case (Inl e)
      then show ?thesis using False by (subst svs_loop.simps) (auto split: prod.splits)
    next
      case (Inr x)
      then obtain r' where r': "svs_row FormatFloat n i r = (Inr x, r')" by (metis prod.collapse)
      then have "length (rbuf r') < length (rbuf r)" using svs_row_strict [OF less.prems] unfolding strict_read_def by blast
      with less r' False show ?thesis by (subst svs_loop.simps) auto
    qed
  qed
qed

lemma svs_table_returns:
  "svs_table FormatFloat (source bs e) = None \<longleftrightarrow> 1 < length bs \<and> bs ! 0 = 0"
proof (cases bs)
  case Nil
  then show ?thesis by (simp add: svs_table_def read_be_def ReadFull_def rd_bind_def)
next
  case (Cons n rest)
  have rd: "read_u8 (source bs e) = (Inr n, source rest e)"
    by (simp add: Cons read_be_def ReadFull_def rd_bind_def get_be_def)
  show ?thesis
  proof (cases "n = 0")
    case True
    have "svs_loop FormatFloat 0 0 (source rest e) [''t'' # []] = None \<longleftrightarrow> rest \<noteq> []"
      using svs_loop_spins [of "source rest e"] by (cases "rest = []") (simp_all add: svs_loop.simps)
    with True rd Cons show ?thesis by (simp add: svs_table_def)
  next
    case False
    then have "0 < unat n" by (simp add: unat_gt_0)
    then have "svs_table FormatFloat (source bs e) \<noteq> None"
      using svs_loop_returns rd unfolding svs_table_def by (force split: prod.splits sum.splits)
    with False Cons show ?thesis by simp
  qed
qed

text \<open>
  C36. The export of SVS data returns unless its header announces no column and data follows:
  then it never does. It panics on empty data and on data that has the magic byte but is shorter than the
  metadata.
\<close>

theorem ExportSVSData_returns:
  "(ExportSVSData FormatFloat bs = None \<longleftrightarrow>
      75 < length bs \<and> bs ! 0 = svsMagic \<and> bs ! 74 = 0) \<and>
   (ExportSVSData FormatFloat bs = Some SvsPanic \<longleftrightarrow> bs = [] \<or> bs ! 0 = svsMagic \<and> length bs < 74)"
  using svs_table_returns [of FormatFloat "drop metaLength bs" EOF]
  by (auto simp: ExportSVSData_def metaLength_def)

end
