(* ===== verification/Plugins.thy ===== *)
theory Plugins
  imports Science Filestore
begin

text \<open>
  The modules of \<^verbatim>\<open>src/plugins\<close>: the monitor of gaps (\<^verbatim>\<open>mon\<close>), the converter of SVS data (\<^verbatim>\<open>svs\<close>) and the
  hash of packets (\<^verbatim>\<open>xxhsum\<close>). The hash functions, the XML encoder, the formatting of dates and floats and the lengths
  declared in package panda are parameters. Theory Plugin_Setup has their set-up from the
  configuration files.
\<close>

section \<open>Monitor\<close>

record mon_line =
  ml_kind :: char
  ml_first :: gotime
  ml_last :: gotime
  ml_size :: uint64
  ml_count :: uint64

text \<open>The log files by name; the logger writes at the end of the current one.\<close>

record mon =
  mn_datadir :: string
  mn_delta :: int
  mn_first :: gotime
  mn_last :: gotime
  mn_starts :: uint32
  mn_ends :: uint32
  mn_size :: uint64
  mn_count :: uint64
  mn_files :: "string \<rightharpoonup> mon_line list"
  mn_current :: string

definition mon_Timeout :: int where "mon_Timeout = 5 * 1000000000"

definition log_name :: "(gotime \<Rightarrow> string) \<Rightarrow> string \<Rightarrow> gotime \<Rightarrow> string" where
  "log_name date dir t = Join [dir, date t] @ ''.log''"

definition mon_Printf :: "char \<Rightarrow> mon \<Rightarrow> mon" where
  "mon_Printf k m =
     m\<lparr>mn_files := (mn_files m)(mn_current m \<mapsto>
         (case mn_files m (mn_current m) of None \<Rightarrow> [] | Some ls \<Rightarrow> ls) @
         [\<lparr>ml_kind = k, ml_first = mn_first m, ml_last = mn_last m, ml_size = mn_size m, ml_count = mn_count m\<rparr>])\<rparr>"

text \<open>\<open>files\<close> are the log files that exist, \<open>every\<close> and \<open>now\<close> the setting and the time.\<close>

definition mon_New :: "(gotime \<Rightarrow> string) \<Rightarrow> string \<Rightarrow> uint64 \<Rightarrow> gotime \<Rightarrow> (string \<rightharpoonup> mon_line list) \<Rightarrow> mon" where
  "mon_New date dir every now files =
     \<lparr>mn_datadir = dir, mn_delta = (if 0 < every then Seconds every else mon_Timeout),
      mn_first = zero_time, mn_last = zero_time, mn_starts = 0, mn_ends = 0, mn_size = 0, mn_count = 0,
      mn_files = files(log_name date dir now \<mapsto> []), mn_current = log_name date dir now\<rparr>"

record header_lengths =
  hl_VMU :: uint64
  hl_IDHv2 :: uint64
  hl_SDHv2 :: uint64

text \<open>A packet that is neither an image nor a table has no header: the method panics.\<close>

definition mon_Process :: "panda \<Rightarrow> header_lengths \<Rightarrow> HRPacket \<Rightarrow> mon \<Rightarrow> go_error option \<times> mon" where
  "mon_Process pa hl p m =
     (if hr_Version p \<noteq> VMUProtocol2 pa then (None, m)
      else
        case (case hr_kind p of
                Image _ \<Rightarrow> Some (hl_IDHv2 hl) | Table _ \<Rightarrow> Some (hl_SDHv2 hl) | OtherPacket \<Rightarrow> None) of
          None \<Rightarrow> (Some (GoPanic ''nil pointer dereference''), m)
        | Some hs \<Rightarrow>
            let v = hr_VMUHeader p;
                m = m\<lparr>mn_last := vh_Timestamp v, mn_ends := vh_Sequence v\<rparr>;
                m = (if IsZero (mn_first m) then m\<lparr>mn_first := mn_last m, mn_starts := mn_ends m\<rparr> else m);
                delta = mn_ends m - mn_starts m;
                d = time_Sub (mn_last m) (mn_first m);
                m = (if 0 < d \<and> mn_delta m < d \<and> (1 < delta \<and> mn_ends m < delta)
                     then (mon_Printf CHR ''g'' m)\<lparr>mn_size := 0, mn_count := 0, mn_first := mn_last m, mn_starts := mn_ends m\<rparr>
                     else m)
            in (None, m\<lparr>mn_count := mn_count m + 1, mn_size := mn_size m + (hl_VMU hl + hs)\<rparr>))"

text \<open>The two tickers: every five minutes the totals are logged when asked for, and the file is changed (when it can be created).\<close>

definition mon_aggregate :: "bool \<Rightarrow> mon \<Rightarrow> mon" where
  "mon_aggregate a m = (if a then mon_Printf CHR ''a'' m else m)"

definition mon_rotate :: "(gotime \<Rightarrow> string) \<Rightarrow> gotime \<Rightarrow> go_error option \<Rightarrow> mon \<Rightarrow> mon" where
  "mon_rotate date now err m =
     (case err of
        Some e \<Rightarrow> m
      | None \<Rightarrow>
          let p = log_name date (mn_datadir m) now in m\<lparr>mn_files := (mn_files m)(p \<mapsto> []), mn_current := p\<rparr>)"

section \<open>SVS converter\<close>

definition svs_origin :: string where "svs_origin = ''90''"

text \<open>\<^verbatim>\<open>encoding/csv\<close>: a field is quoted when it has a separator, a quote, an end of line or a leading space.\<close>

definition csv_field :: "string \<Rightarrow> string" where
  "csv_field s =
     (let lf = char_of (10 :: nat); cr = char_of (13 :: nat); bs = char_of (92 :: nat); qu = char_of (34 :: nat) in
      if s \<noteq> [] \<and> (s = [bs, CHR ''.''] \<or> HasPrefix s '' '' \<or> list_ex (\<lambda>c. c = CHR '','' \<or> c = qu \<or> c = lf \<or> c = cr) s)
      then [qu] @ concat (map (\<lambda>c. if c = qu then [qu, qu] else [c]) s) @ [qu]
      else s)"

fun csv_record :: "string list \<Rightarrow> string" where
  "csv_record [] = [char_of (10 :: nat)]"
| "csv_record [f] = csv_field f @ [char_of (10 :: nat)]"
| "csv_record (f # fs) = csv_field f @ CHR '','' # csv_record fs"

definition csv_text :: "row list \<Rightarrow> bytes" where
  "csv_text rows = bytes_of_string (concat (map csv_record rows))"

text \<open>What a buffered writer of 4096 bytes has passed on when it is not flushed.\<close>

definition unflushed :: "bytes \<Rightarrow> bytes" where
  "unflushed bs = take (4096 * ((length bs - 1) div 4096)) bs"

text \<open>The fields of \<^verbatim>\<open>metadata\<close> in the order of the struct, 74 bytes.\<close>

definition metadata_fields :: "bytes \<Rightarrow> bytes list" where
  "metadata_fields bs = fst (fold (\<lambda>n (fs, rest). (fs @ [take n rest], drop n rest))
     [1, 8, 4, 8, 1, 2, 2, 1, 2, 2, 2, 2, 2, 2, 2, 1, 32] ([], bs))"

definition metadata_size :: nat where "metadata_size = 74"

text \<open>\<open>xml\<close> encodes the metadata; \<^verbatim>\<open>os.Create\<close> leaves an empty file behind when the encoder fails.\<close>

definition processMeta :: "(bytes list \<Rightarrow> bytes outcome) \<Rightarrow> string \<Rightarrow> reader \<Rightarrow> fs \<Rightarrow> (go_error option \<times> reader) \<times> fs" where
  "processMeta xml name r f =
     (case ReadFull metadata_size r of
        (Inl e, r) \<Rightarrow> ((Some e, r), f)
      | (Inr bs, r) \<Rightarrow>
          (case WriteFile (name @ ''.xml'') [] f of
             (Some e, f) \<Rightarrow> ((Some e, r), f)
           | (None, f) \<Rightarrow>
               (case xml (metadata_fields bs) of
                  Inl e \<Rightarrow> ((Some e, r), f)
                | Inr text \<Rightarrow> (case WriteFile (name @ ''.xml'') text f of (e, f) \<Rightarrow> ((e, r), f)))))"

text \<open>\<open>None\<close> when the loop over the rows never ends.\<close>

definition processData :: "(uint32 \<Rightarrow> string) \<Rightarrow> string \<Rightarrow> reader \<Rightarrow> fs \<Rightarrow> (go_error option \<times> fs) option" where
  "processData FormatFloat name r f =
     (case WriteFile (name @ ''.csv'') [] f of
        (Some e, f) \<Rightarrow> Some (Some e, f)
      | (None, f) \<Rightarrow>
          (case svs_table FormatFloat r of
             None \<Rightarrow> None
           | Some (rows, None) \<Rightarrow> Some (WriteFile (name @ ''.csv'') (csv_text rows) f)
           | Some (rows, Some e) \<Rightarrow> Some (Some e, snd (WriteFile (name @ ''.csv'') (unflushed (csv_text rows)) f))))"

definition processIntro :: "panda \<Rightarrow> dirmaker \<Rightarrow> uint8 \<Rightarrow> HRPacket \<Rightarrow> fs \<Rightarrow> go_error option \<times> fs" where
  "processIntro pa dm i p f =
     (case Prepare pa dm i p f of
        (Inl e, f) \<Rightarrow> (Some e, f)
      | (Inr dir, f) \<Rightarrow>
          let raw = hr_Payload p in
          if length raw < 4 then (Some (GoPanic ''slice bounds out of range''), f)
          else WriteFile (Join [dir, hr_Filename p @ ''.ini'']) (take (length raw - 4) raw) f)"

definition svs_Process ::
  "panda \<Rightarrow> (bytes list \<Rightarrow> bytes outcome) \<Rightarrow> (uint32 \<Rightarrow> string) \<Rightarrow> dirmaker \<Rightarrow> uint8 \<Rightarrow> HRPacket \<Rightarrow> fs \<Rightarrow>
     (go_error option \<times> fs) option" where
  "svs_Process pa xml FormatFloat dm i p f =
     (if hr_Version p \<noteq> VMUProtocol2 pa \<or> hr_Origin p \<noteq> svs_origin then Some (None, f)
      else if hr_Sequence p = 1 then Some (processIntro pa dm i p f)
      else (case Prepare pa dm i p f of
              (Inl e, f) \<Rightarrow> Some (Some e, f)
            | (Inr dir, f) \<Rightarrow>
                let name = Join [dir, hr_Filename p] in
                (case processMeta xml name (source (hr_Payload p) EOF) f of
                   ((Some e, r), f) \<Rightarrow> Some (Some e, f)
                 | ((None, r), f) \<Rightarrow> processData FormatFloat name r f)))"

section \<open>Hashes\<close>

text \<open>\<open>hash\<close> is the function of package xxh for the algorithm; a line has the time, the sequence number and the sum.\<close>

definition digest_Process ::
  "(bytes \<Rightarrow> 's \<Rightarrow> 'h) \<Rightarrow> 's \<Rightarrow> HRPacket \<Rightarrow> (gotime \<times> uint32 \<times> 'h) list \<Rightarrow> go_error option \<times> (gotime \<times> uint32 \<times> 'h) list" where
  "digest_Process hash seed p out =
     (case hr_Bytes p of
        Inl e \<Rightarrow> (Some e, out)
      | Inr bs \<Rightarrow>
          if length bs = 0 then (Some (Errorf ''empy payload''), out)
          else (None, out @ [(hr_Timestamp p, hr_Sequence p, hash bs seed)]))"

datatype digest = Digest32 uint32 | Digest64 uint64

definition xxhsum_New :: "uint64 \<Rightarrow> uint64 \<Rightarrow> digest outcome" where
  "xxhsum_New seed alg =
     (if alg = 32 then Inr (Digest32 (ucast seed)) else if alg = 64 then Inr (Digest64 seed)
      else Inl (Errorf ''unsupported algorithm: %d''))"

section \<open>Properties of the monitor\<close>

lemma wrapped_difference:
  fixes e s :: uint32
  shows "1 < e - s \<and> e < e - s \<longleftrightarrow> e < s \<and> \<not> (e = 0 \<and> s = - 1)"
proof -
  have s: "unat s < 2 ^ 32" using unat_less_pow [of s] by simp
  have "s = - 1 \<longleftrightarrow> unat s = 2 ^ 32 - 1" by (simp add: word_unat_eq_iff unsigned_minus_1_eq_mask mask_eq_exp_minus_1)
  moreover have "unat (e - s) = (if unat s \<le> unat e then unat e - unat s else unat e + 2 ^ 32 - unat s)"
    using unat_sub_if' [of e s] by simp
  ultimately show ?thesis using s by (simp add: word_less_nat_alt unat_eq_0 [symmetric] del: unat_eq_0) arith
qed

text \<open>
  C40. The monitor of gaps logs a group only when the sequence numbers went backwards: on an image or table of
  version 2 it writes a line exactly when more than the delay has passed since the group began and
  the sequence number is below the one the group began with (and not just wrapped around to zero). Packets that
  are missing in a growing sequence are never logged.
\<close>

theorem mon_logs_backwards_only:
  assumes "hr_Version p = VMUProtocol2 pa" and "hr_kind p \<noteq> OtherPacket" and "\<not> IsZero (mn_first m)" and "0 \<le> mn_delta m"
  shows "mn_files (snd (mon_Process pa hl p m)) \<noteq> mn_files m \<longleftrightarrow>
    mn_delta m < time_Sub (vh_Timestamp (hr_VMUHeader p)) (mn_first m) \<and>
    vh_Sequence (hr_VMUHeader p) < mn_starts m \<and>
    \<not> (vh_Sequence (hr_VMUHeader p) = 0 \<and> mn_starts m = - 1)"
proof -
  have grows: "(mn_files m)(mn_current m \<mapsto>
      (case mn_files m (mn_current m) of None \<Rightarrow> [] | Some ls \<Rightarrow> ls) @ [l]) \<noteq> mn_files m" for l
    by (auto simp: fun_upd_idem_iff split: option.splits)
  show ?thesis
    using assms wrapped_difference [of "vh_Sequence (hr_VMUHeader p)" "mn_starts m"]
    by (cases "hr_kind p") (auto simp: mon_Process_def mon_Printf_def Let_def grows)
qed

text \<open>
  The file of the monitor is named after the day, and is created anew at every rotation: rotating
  twice on the same day, as the default of one hour does, empties the log of that day.
\<close>

theorem mon_rotate_same_day:
  assumes "mn_current m = log_name date (mn_datadir m) t" and "date now = date t"
  shows "mn_current (mon_rotate date now None m) = mn_current m \<and>
    mn_files (mon_rotate date now None m) (mn_current m) = Some []"
  using assms by (simp add: mon_rotate_def log_name_def Let_def)

definition sample_mon :: mon where
  "sample_mon = (mon_New (\<lambda>_. ''20180101'') ''/log'' 0 (time_Unix 0 1000000) Map.empty)
     \<lparr>mn_first := time_Unix 0 1000000, mn_starts := 9\<rparr>"

definition late_table :: HRPacket where
  "late_table = sample_table\<lparr>hr_VMUHeader := sample_vmu_header\<lparr>vh_Timestamp := time_Unix 0 1000010\<rparr>\<rparr>"

theorem mon_logs_backwards_only_witness:
  "mn_files (snd (mon_Process sample_panda \<lparr>hl_VMU = 24, hl_IDHv2 = 88, hl_SDHv2 = 68\<rparr> late_table sample_mon)) \<noteq> mn_files sample_mon"
proof -
  have "hr_Version late_table = VMUProtocol2 sample_panda" "hr_kind late_table \<noteq> OtherPacket"
    "\<not> IsZero (mn_first sample_mon)" "0 \<le> mn_delta sample_mon"
    "mn_delta sample_mon < time_Sub (vh_Timestamp (hr_VMUHeader late_table)) (mn_first sample_mon)"
    "vh_Sequence (hr_VMUHeader late_table) < mn_starts sample_mon \<and>
     \<not> (vh_Sequence (hr_VMUHeader late_table) = 0 \<and> mn_starts sample_mon = - 1)"
    by code_simp+
  then show ?thesis using mon_logs_backwards_only [of late_table sample_panda sample_mon] by blast
qed

theorem mon_rotate_same_day_witness:
  "mn_files (mon_rotate (\<lambda>_. ''20180101'') (time_Unix 0 1003600) None (mon_aggregate True sample_mon)) ''/log/20180101.log'' = Some []"
proof -
  have c: "mn_current (mon_aggregate True sample_mon) = log_name (\<lambda>_. ''20180101'') (mn_datadir (mon_aggregate True sample_mon)) zero_time"
    "mn_current (mon_aggregate True sample_mon) = ''/log/20180101.log''"
    by code_simp+
  show ?thesis using mon_rotate_same_day [OF c(1), of "time_Unix 0 1003600"] c(2) by simp
qed

section \<open>Properties of the converter\<close>

lemma processMeta_rest:
  "processMeta xml name (source bs e) f = ((None, r), f') \<Longrightarrow> metadata_size \<le> length bs \<and> r = source (drop metadata_size bs) e"
  by (auto simp: processMeta_def ReadFull_def split: outcome_splits)

lemma WriteFile_no_link: "\<not> is_link f l \<Longrightarrow> WriteFile p bs f = (e, f') \<Longrightarrow> \<not> is_link f' l"
  by (auto simp: WriteFile_def is_link_def node_at_pair_None split: option.splits node.splits if_splits)

lemma processMeta_no_link:
  "processMeta xml name r f = (x, f') \<Longrightarrow> \<not> is_link f l \<Longrightarrow> \<not> is_link f' l"
  by (auto simp: processMeta_def dest: WriteFile_no_link split: outcome_splits)

lemma Prepare_no_link: "Prepare pa dm i p f = (x, f') \<Longrightarrow> \<not> is_link f l \<Longrightarrow> \<not> is_link f' l"
  using adds_dirs_link [OF MkdirAll_adds [of f "prepare_path pa dm i p"], of l]
  by (cases "MkdirAll (prepare_path pa dm i p) f") (auto simp: Prepare_def Let_def split: outcome_splits)


definition svs_packet :: HRPacket where
  "svs_packet = sample_table\<lparr>hr_Origin := ''90'',
     hr_Payload := 0x90 # replicate 73 0 @ [1] @ le16 5 @ le32 7\<rparr>"


end
