(* ===== verification/Images.thy ===== *)
theory Images
  imports Go_Reader "HOL-Library.More_List"
begin

text \<open>
  Reconstruction of images from raw pixels (\<^verbatim>\<open>src/internal/image/image.go\<close>). Slices are modelled
  with their backing arrays in a heap, because one of the functions appends to a slice
  through another variable and the result depends on the sharing.
\<close>

section \<open>Slices\<close>

record slice =
  sl_arr :: nat
  sl_len :: nat
  sl_cap :: nat

record heap =
  hp_data :: "nat \<Rightarrow> bytes"
  hp_next :: nat

definition make_slice :: "nat \<Rightarrow> heap \<Rightarrow> slice \<times> heap" where
  "make_slice c h =
     (\<lparr>sl_arr = hp_next h, sl_len = 0, sl_cap = c\<rparr>,
      h\<lparr>hp_data := (hp_data h)(hp_next h := replicate c 0), hp_next := hp_next h + 1\<rparr>)"

definition slice_bytes :: "heap \<Rightarrow> slice \<Rightarrow> bytes" where
  "slice_bytes h s = take (sl_len s) (hp_data h (sl_arr s))"

text \<open>\<^verbatim>\<open>append(s, v)\<close>: in place while the capacity lasts, to a new array of twice the size otherwise.\<close>

definition slice_append :: "slice \<Rightarrow> byte \<Rightarrow> heap \<Rightarrow> slice \<times> heap" where
  "slice_append s v h =
     (if sl_len s < sl_cap s
      then (s\<lparr>sl_len := sl_len s + 1\<rparr>,
            h\<lparr>hp_data := (hp_data h)(sl_arr s := (hp_data h (sl_arr s))[sl_len s := v])\<rparr>)
      else (\<lparr>sl_arr = hp_next h, sl_len = sl_len s + 1, sl_cap = 2 * sl_cap s + 1\<rparr>,
            h\<lparr>hp_data := (hp_data h)(hp_next h := slice_bytes h s @ [v] @ replicate (sl_cap s) 0),
              hp_next := hp_next h + 1\<rparr>))"

text \<open>\<^verbatim>\<open>copy(dst, src)\<close>.\<close>

definition go_copy :: "bytes \<Rightarrow> bytes \<Rightarrow> bytes" where
  "go_copy dst src = take (length dst) src @ drop (length src) dst"

section \<open>Images\<close>

datatype picture =
    RGBA "(byte \<times> byte \<times> byte \<times> byte) list list"
  | YCbCr bytes bytes bytes
  | Gray "byte list list"
  | Gray16 "uint16 list list"

fun rgb_row :: "nat \<Rightarrow> reader \<Rightarrow> (byte \<times> byte \<times> byte \<times> byte) list \<times> reader" where
  "rgb_row 0 r = ([], r)"
| "rgb_row (Suc x) r =
     (let (red, r) = read_into 0 read_u8 r;
          (green, r) = read_into 0 read_u8 r;
          (blue, r) = read_into 0 read_u8 r;
          (ps, r) = rgb_row x r
      in ((red, green, blue, 255) # ps, r))"

fun rgb_rows :: "nat \<Rightarrow> nat \<Rightarrow> reader \<Rightarrow> (byte \<times> byte \<times> byte \<times> byte) list list" where
  "rgb_rows x 0 r = []"
| "rgb_rows x (Suc y) r = (let (ps, r) = rgb_row x r in ps # rgb_rows x y r)"

definition ImageRGB :: "nat \<Rightarrow> nat \<Rightarrow> bytes \<Rightarrow> picture" where
  "ImageRGB x y points = RGBA (rgb_rows x y (source points EOF))"

text \<open>
  The loop over the groups of four bytes: luminance twice, blue and red difference. The
  slices of both differences are grown from the slice \<open>rs\<close>. A group with less than four bytes
  makes an index panic (\<open>None\<close>).
\<close>

fun lbr_loop :: "bytes \<Rightarrow> bytes \<Rightarrow> slice \<Rightarrow> slice \<Rightarrow> heap \<Rightarrow> (bytes \<times> slice \<times> slice \<times> heap) option" where
  "lbr_loop [] ls bs rs h = Some (ls, bs, rs, h)"
| "lbr_loop (a # b # c # d # ps) ls bs rs h =
     (let (bs, h) = slice_append rs b h;
          (rs, h) = slice_append rs d h
      in lbr_loop ps (ls @ [a, c]) bs rs h)"
| "lbr_loop _ ls bs rs h = None"

definition new_heap :: heap where
  "new_heap = \<lparr>hp_data = (\<lambda>_. []), hp_next = 0\<rparr>"

definition ImageLBR :: "nat \<Rightarrow> nat \<Rightarrow> bytes \<Rightarrow> picture option" where
  "ImageLBR x y points =
     (let (bs, h) = make_slice (length points div 4) new_heap;
          (rs, h) = make_slice (length points div 4) h
      in case lbr_loop points [] bs rs h of
           None \<Rightarrow> None
         | Some (ls, bs, rs, h) \<Rightarrow>
             Some (YCbCr (go_copy (replicate (x * y) 0) ls)
                         (go_copy (replicate ((x + 1) div 2 * y) 0) (slice_bytes h bs))
                         (go_copy (replicate ((x + 1) div 2 * y) 0) (slice_bytes h rs))))"

text \<open>The slice expressions are checked against the length of the data, which is taken to have no spare capacity.\<close>

definition ImageI420 :: "nat \<Rightarrow> nat \<Rightarrow> bytes \<Rightarrow> picture option" where
  "ImageI420 x y points =
     (let s = x * y; z = s div 4; c = (x + 1) div 2 * ((y + 1) div 2) in
      if length points < s + z then None
      else Some (YCbCr (go_copy (replicate s 0) (take s points))
                       (go_copy (replicate c 0) (take z (drop s points)))
                       (go_copy (replicate c 0) (drop (length points - z) points))))"

text \<open>A row the data does not reach stays black.\<close>

fun gray8_rows :: "nat \<Rightarrow> nat \<Rightarrow> bytes \<Rightarrow> byte list list" where
  "gray8_rows x 0 buf = []"
| "gray8_rows x (Suc y) buf = go_copy (replicate x 0) (take x buf) # gray8_rows x y (drop x buf)"

definition ImageGray8 :: "nat \<Rightarrow> nat \<Rightarrow> bytes \<Rightarrow> picture" where
  "ImageGray8 x y points = Gray (gray8_rows x y points)"

datatype byte_order = BigEndian | LittleEndian

definition read_order :: "byte_order \<Rightarrow> uint16 rd" where
  "read_order ord = (case ord of BigEndian \<Rightarrow> read_be 2 | LittleEndian \<Rightarrow> read_le 2)"

fun gray16_row :: "byte_order \<Rightarrow> nat \<Rightarrow> reader \<Rightarrow> uint16 list \<times> reader" where
  "gray16_row ord 0 r = ([], r)"
| "gray16_row ord (Suc x) r =
     (let (c, r) = read_into 0 (read_order ord) r; (cs, r) = gray16_row ord x r in (c # cs, r))"

fun gray16_rows :: "byte_order \<Rightarrow> nat \<Rightarrow> nat \<Rightarrow> reader \<Rightarrow> uint16 list list" where
  "gray16_rows ord x 0 r = []"
| "gray16_rows ord x (Suc y) r = (let (cs, r) = gray16_row ord x r in cs # gray16_rows ord x y r)"

definition ImageGray16 :: "nat \<Rightarrow> nat \<Rightarrow> bytes \<Rightarrow> byte_order \<Rightarrow> picture" where
  "ImageGray16 x y points ord = Gray16 (gray16_rows ord x y (source points EOF))"

section \<open>Properties\<close>

definition every4 :: "nat \<Rightarrow> bytes \<Rightarrow> bytes" where
  "every4 k ps = map (\<lambda>i. ps ! (4 * i + k)) [0..<length ps div 4]"

lemma every4_step: "k < 4 \<Longrightarrow> every4 k (a # b # c # d # ps) = [a, b, c, d] ! k # every4 k ps"
proof -
  assume "k < 4"
  have len: "length (a # b # c # d # ps) div 4 = Suc (length ps div 4)" by simp
  have "[0..<Suc (length ps div 4)] = 0 # map Suc [0..<length ps div 4]"
    by (simp add: upt_conv_Cons map_Suc_upt del: upt_Suc)
  moreover have "(a # b # c # d # ps) ! k = [a, b, c, d] ! k"
    using \<open>k < 4\<close> by (auto simp: less_Suc_eq numeral_eq_Suc)
  moreover have "(a # b # c # d # ps) ! (4 * Suc i + k) = ps ! (4 * i + k)" for i
  proof -
    have "4 * Suc i + k = Suc (Suc (Suc (Suc (4 * i + k))))" by simp
    then show ?thesis by (simp only: nth_Cons_Suc)
  qed
  ultimately show ?thesis unfolding every4_def len by (simp del: upt_Suc)
qed

text \<open>Both slices end up over the array of \<open>rs\<close>, whose cells were written last with the red differences.\<close>

lemma lbr_loop_shared:
  assumes "length ps mod 4 = 0" and "sl_len rs + length ps div 4 \<le> sl_cap rs"
    and "length (hp_data h (sl_arr rs)) = sl_cap rs"
  shows "\<exists>ls' bs' rs' h'. lbr_loop ps ls bs rs h = Some (ls', bs', rs', h') \<and>
    slice_bytes h' rs' = slice_bytes h rs @ every4 3 ps \<and>
    (ps \<noteq> [] \<longrightarrow> slice_bytes h' bs' = slice_bytes h' rs') \<and> (ps = [] \<longrightarrow> bs' = bs \<and> h' = h)"
  using assms
proof (induction ps ls bs rs h rule: lbr_loop.induct)
  case (1 ls bs rs h)
  then show ?case by (simp add: every4_def)
next
  case (2 a b c d ps ls bs rs h)
  have cap: "sl_len rs < sl_cap rs" using "2.prems"(2) by simp
  define h1 where "h1 = snd (slice_append rs b h)"
  define bs1 where "bs1 = rs\<lparr>sl_len := sl_len rs + 1\<rparr>"
  have a1: "slice_append rs b h = (bs1, h1)" using cap by (simp add: slice_append_def bs1_def h1_def)
  define h2 where "h2 = snd (slice_append rs d h1)"
  have a2: "slice_append rs d h1 = (bs1, h2)" using cap by (simp add: slice_append_def bs1_def h2_def)
  have arr: "hp_data h2 (sl_arr rs) = (hp_data h (sl_arr rs))[sl_len rs := d]"
    using cap by (simp add: h2_def h1_def slice_append_def)
  have sb: "slice_bytes h2 bs1 = slice_bytes h rs @ [d]"
    using cap "2.prems"(3) by (simp add: slice_bytes_def bs1_def arr take_Suc_conv_app_nth)
  have "length ps mod 4 = 0" "sl_len bs1 + length ps div 4 \<le> sl_cap bs1"
    "length (hp_data h2 (sl_arr bs1)) = sl_cap bs1"
    using "2.prems" arr by (simp_all add: bs1_def)
  from "2.IH" [OF a1 [symmetric] refl a2 [symmetric] refl this]
  obtain ls' bs' rs' h' where ih: "lbr_loop ps (ls @ [a, c]) bs1 bs1 h2 = Some (ls', bs', rs', h')"
    "slice_bytes h' rs' = slice_bytes h2 bs1 @ every4 3 ps"
    "ps \<noteq> [] \<longrightarrow> slice_bytes h' bs' = slice_bytes h' rs'" "ps = [] \<longrightarrow> bs' = bs1 \<and> h' = h2" by blast
  have "slice_bytes h' bs' = slice_bytes h' rs'"
    using ih sb by (cases "ps = []") (simp_all add: every4_def)
  then show ?case using ih sb a1 a2 by (simp add: every4_step numeral_3_eq_3)
qed simp_all

text \<open>
  The blue differences of a YUY2 image are lost: the function grows the slice of the blue
  differences from the slice of the red ones, so that both planes of the picture it returns are the same,
  namely the fourth byte of every group; the second bytes do not appear at all. On data whose length
  is not a multiple of four it panics.
\<close>

theorem ImageLBR_planes_equal:
  assumes "length points mod 4 = 0" and "points \<noteq> []"
  shows "\<exists>ls cs. ImageLBR x y points = Some (YCbCr ls cs cs) \<and>
    cs = go_copy (replicate ((x + 1) div 2 * y) 0) (every4 3 points)"
proof -
  let ?n = "length points div 4"
  obtain bs h1 where b: "make_slice ?n new_heap = (bs, h1)" by fastforce
  obtain rs h2 where r: "make_slice ?n h1 = (rs, h2)" by fastforce
  have rs: "sl_len rs = 0" "sl_cap rs = ?n" "length (hp_data h2 (sl_arr rs)) = ?n"
    using r by (auto simp: make_slice_def)
  obtain ls' bs' rs' h' where l: "lbr_loop points [] bs rs h2 = Some (ls', bs', rs', h')"
    "slice_bytes h' rs' = slice_bytes h2 rs @ every4 3 points" "slice_bytes h' bs' = slice_bytes h' rs'"
    using lbr_loop_shared [OF assms(1), of rs h2 "[]" bs] rs assms(2) by auto
  have "slice_bytes h2 rs = []" using rs by (simp add: slice_bytes_def)
  with l b r show ?thesis by (auto simp: ImageLBR_def)
qed

theorem ImageLBR_planes_equal_witness:
  "\<exists>ls cs. ImageLBR 2 1 [10, 20, 11, 30] = Some (YCbCr ls cs cs) \<and>
    cs = go_copy (replicate ((2 + 1) div 2 * 1) 0) (every4 3 [10, 20, 11, 30])"
  by (rule ImageLBR_planes_equal) simp_all

lemma read_into_u8: "read_into 0 read_u8 (source bs e) = (nth_default 0 bs 0, source (drop 1 bs) e)"
  by (cases bs) (simp_all add: read_into_def read_be_def ReadFull_def rd_bind_def get_be_def)

lemma rgb_row_eq:
  "rgb_row x (source bs e) =
     (map (\<lambda>j. (nth_default 0 bs (3 * j), nth_default 0 bs (3 * j + 1), nth_default 0 bs (3 * j + 2), 255)) [0..<x],
      source (drop (3 * x) bs) e)"
proof (induction x arbitrary: bs)
  case (Suc x)
  have "[0..<Suc x] = 0 # map Suc [0..<x]" by (simp add: upt_conv_Cons map_Suc_upt del: upt_Suc)
  moreover have "nth_default 0 (drop k bs) i = nth_default 0 bs (k + i)" for k i
    by (simp add: nth_default_def add.commute less_diff_conv)
  ultimately show ?case
    by (simp add: read_into_u8 [unfolded One_nat_def] Suc.IH drop_drop numeral_2_eq_2 numeral_3_eq_3 del: upt_Suc)
qed simp

lemma rgb_rows_eq:
  "rgb_rows x y (source bs e) =
     map (\<lambda>i. map (\<lambda>j. (nth_default 0 bs (3 * (i * x + j)), nth_default 0 bs (3 * (i * x + j) + 1),
        nth_default 0 bs (3 * (i * x + j) + 2), 255)) [0..<x]) [0..<y]"
proof (induction y arbitrary: bs)
  case (Suc y)
  have "[0..<Suc y] = 0 # map Suc [0..<y]" by (simp add: upt_conv_Cons map_Suc_upt del: upt_Suc)
  moreover have "nth_default 0 (drop k bs) i = nth_default 0 bs (k + i)" for k i
    by (simp add: nth_default_def add.commute less_diff_conv)
  ultimately show ?case
    by (simp add: rgb_row_eq Suc.IH algebra_simps del: upt_Suc)
qed simp

text \<open>
  The pixel in column j and row i of an RGB image has the three bytes at position
  3(ix + j) as its colours and is opaque; pixels the data does not reach are black.
\<close>

theorem ImageRGB_pixels:
  "ImageRGB x y bs =
     RGBA (map (\<lambda>i. map (\<lambda>j. (nth_default 0 bs (3 * (i * x + j)), nth_default 0 bs (3 * (i * x + j) + 1),
        nth_default 0 bs (3 * (i * x + j) + 2), 255)) [0..<x]) [0..<y])"
  by (simp add: ImageRGB_def rgb_rows_eq)

end
