(* ===== verification/Fetch.thy ===== *)
theory Fetch
  imports Images Science Filestore
begin

text \<open>
  The HTTP service that distributes stored packets (\<^verbatim>\<open>src/distrib/fetch.go\<close>): content
  negotiation, reading of a stored raw packet, and its conversion to an image or a table. The image
  codecs, the four character codes of package panda and the md5 sum are parameters.
\<close>

section \<open>Content negotiation\<close>

definition MimeOctet :: string where "MimeOctet = ''application/octet-stream''"
definition MimeGif :: string where "MimeGif = ''image/gif''"
definition MimeJPG :: string where "MimeJPG = ''image/jpeg''"
definition MimePNG :: string where "MimePNG = ''image/png''"
definition MimeCSV :: string where "MimeCSV = ''text/csv''"

definition types :: "string list" where
  "types = [MimeOctet, MimeGif, MimePNG, MimeJPG, MimeCSV]"

definition MainType :: "string \<Rightarrow> string" where
  "MainType m = split_slash m ! 0"

definition SubType :: "string \<Rightarrow> string" where
  "SubType m = split_slash m ! 1"

fun accept :: "string \<Rightarrow> string list \<Rightarrow> string option" where
  "accept a [] = None"
| "accept a (v # vs) = (if Contains a v then Some v else accept a vs)"

definition isAcceptable :: "string \<Rightarrow> string list \<Rightarrow> bool" where
  "isAcceptable a vs = (if length vs = 0 then True else accept a vs \<noteq> None)"

section \<open>Stored packets\<close>

definition ErrNotModified :: go_error where "ErrNotModified = ErrSentinel ''not modified''"
definition ErrNotFound :: go_error where "ErrNotFound = ErrSentinel ''not found''"
definition ErrNotImplemented :: go_error where "ErrNotImplemented = ErrSentinel ''not implemented''"

record stored =
  sf_fcc :: uint32
  sf_seq :: uint32
  sf_when :: uint64
  sf_sum :: bytes
  sf_buf :: bytes

text \<open>The contents of an open file; the errors of the three reads are dropped.\<close>

definition parse_stored :: "(bytes \<Rightarrow> bytes) \<Rightarrow> bytes \<Rightarrow> stored" where
  "parse_stored md5 bs =
     (let r = source bs EOF;
          (fcc, r) = read_into 0 read_u32 r;
          (sq, r) = read_into 0 read_u32 r;
          (when, r) = read_into 0 read_u64 r
      in \<lparr>sf_fcc = fcc, sf_seq = sq, sf_when = when, sf_sum = md5 (rbuf r), sf_buf = rbuf r\<rparr>)"

text \<open>\<^verbatim>\<open>fetcher.copyFile\<close>: the bytes written to the response, or \<open>None\<close> when the file cannot be opened.\<close>

definition copyFile :: "fs \<Rightarrow> string \<Rightarrow> string \<Rightarrow> bytes option" where
  "copyFile f datadir p =
     (case Stat f (Join [datadir, p]) of None \<Rightarrow> None | Some (File i) \<Rightarrow> Some (fs_data f i) | Some _ \<Rightarrow> Some [])"

text \<open>
  \<open>mtime\<close> is the modification time of the file; reading a directory fails. The caller passes the zero time, for
  which the test on the modification time is always false.
\<close>

definition readFile :: "(bytes \<Rightarrow> bytes) \<Rightarrow> gotime \<Rightarrow> fs \<Rightarrow> string \<Rightarrow> gotime \<Rightarrow> stored outcome" where
  "readFile md5 mtime f p m =
     (case Stat f p of
        None \<Rightarrow> Inl ErrNotFound
      | Some n \<Rightarrow>
          if \<not> IsZero m \<and> time_Sub m mtime \<le> 0 then Inl ErrNotModified
          else (case n of File i \<Rightarrow> Inr (parse_stored md5 (fs_data f i)) | _ \<Rightarrow> Inl EISDIR))"

definition AsRaw :: "stored \<Rightarrow> bytes" where
  "AsRaw s = be32 (sf_fcc s) @ be32 (sf_seq s) @ be64 (sf_when s) @ sf_buf s"

definition ModTime :: "panda \<Rightarrow> stored \<Rightarrow> gotime" where
  "ModTime pa s = AdjustGenerationTime pa (sint (sf_when s))"

record fccs =
  fc_SYNC :: bytes
  fc_MMA :: bytes
  fc_SVS :: bytes
  fc_JPEG :: bytes
  fc_PNG :: bytes
  fc_YUY2 :: bytes
  fc_Y800 :: bytes
  fc_I420 :: bytes
  fc_RGB :: bytes
  fc_Y16B :: bytes
  fc_Y16L :: bytes

text \<open>A table, raw bytes, or a panic or endless loop of the export.\<close>

datatype body = BodyBytes bytes | BodyRows "row list" | BodyPicture string picture | BodyCopy bytes

datatype conversion = Converted body | ConversionError go_error | ConversionPanic | ConversionHangs

definition of_rows :: "row list outcome \<Rightarrow> conversion" where
  "of_rows x = (case x of Inl e \<Rightarrow> ConversionError e | Inr rs \<Rightarrow> Converted (BodyRows rs))"

definition AsScience :: "panda \<Rightarrow> fccs \<Rightarrow> (gotime \<Rightarrow> string) \<Rightarrow> (uint32 \<Rightarrow> string) \<Rightarrow> stored \<Rightarrow> conversion" where
  "AsScience pa fc rfc3339 FormatFloat s =
     (let fcc = be32 (sf_fcc s); bs = sf_buf s; t = rfc3339 (ModTime pa s) in
      if fcc = fc_SYNC fc then of_rows (ExportSyncUnit t bs)
      else if fcc = fc_MMA fc then of_rows (ExportScienceData t bs)
      else if fcc = fc_SVS fc then
        (case ExportSVSData FormatFloat bs of
           None \<Rightarrow> ConversionHangs
         | Some SvsPanic \<Rightarrow> ConversionPanic
         | Some (SvsRaw w) \<Rightarrow> Converted (BodyBytes w)
         | Some (SvsTable x) \<Rightarrow> of_rows x)
      else ConversionError ErrNotImplemented)"

text \<open>
  \<open>decode\<close> is \<^verbatim>\<open>image.Decode\<close>, \<open>encode\<close> the encoder of the given format. The size is read from the
  data, with zero for what is missing.
\<close>

definition AsImage ::
  "fccs \<Rightarrow> (bytes \<Rightarrow> picture outcome) \<Rightarrow> (string \<Rightarrow> picture \<Rightarrow> go_error option) \<Rightarrow> string \<Rightarrow> stored \<Rightarrow> conversion" where
  "AsImage fc decode encode t s =
     (let (x, r) = read_into 0 read_u16 (source (sf_buf s) EOF);
          (y, r) = read_into 0 read_u16 r;
          x = unat x; y = unat y; fcc = be32 (sf_fcc s); bs = rbuf r;
          pic =
            (if fcc = fc_JPEG fc \<or> fcc = fc_PNG fc then Some (decode bs)
             else if fcc = fc_YUY2 fc then map_option Inr (ImageLBR x y bs)
             else if fcc = fc_Y800 fc then Some (Inr (ImageGray8 x y bs))
             else if fcc = fc_I420 fc then map_option Inr (ImageI420 x y bs)
             else if fcc = fc_RGB fc then Some (Inr (ImageRGB x y bs))
             else if fcc = fc_Y16B fc then Some (Inr (ImageGray16 x y bs BigEndian))
             else if fcc = fc_Y16L fc then Some (Inr (ImageGray16 x y bs LittleEndian))
             else Some (Inl (Errorf ''not supported %x'')))
      in case pic of
           None \<Rightarrow> ConversionPanic
         | Some (Inl e) \<Rightarrow> ConversionError e
         | Some (Inr i) \<Rightarrow>
             let fmt = (if t = ''jpg'' \<or> t = ''jpeg'' then ''jpeg'' else if t = ''gif'' then ''gif'' else ''png'')
             in (case encode fmt i of Some e \<Rightarrow> ConversionError e | None \<Rightarrow> Converted (BodyPicture fmt i)))"

section \<open>Requests\<close>

record response =
  rs_status :: nat
  rs_type :: string
  rs_etag :: bytes
  rs_modified :: "gotime option"
  rs_body :: "body option"

definition status_only :: "nat \<Rightarrow> response" where
  "status_only n = \<lparr>rs_status = n, rs_type = '''', rs_etag = [], rs_modified = None, rs_body = None\<rparr>"

record fetch_env =
  fe_panda :: panda
  fe_fccs :: fccs
  fe_md5 :: "bytes \<Rightarrow> bytes"
  fe_rfc3339 :: "gotime \<Rightarrow> string"
  fe_float :: "uint32 \<Rightarrow> string"
  fe_decode :: "bytes \<Rightarrow> picture outcome"
  fe_encode :: "string \<Rightarrow> picture \<Rightarrow> go_error option"

text \<open>The response to a request for a path with an accept header (without the header that says when it expires); \<open>None\<close> when the conversion panics or hangs.\<close>

definition fetch_ServeHTTP :: "fetch_env \<Rightarrow> string \<Rightarrow> fs \<Rightarrow> string \<Rightarrow> string \<Rightarrow> response option" where
  "fetch_ServeHTTP env rawdir f url acc =
     (let p = Join [rawdir, url] in
      if isAcceptable acc [''application/xml''] then
        (case Stat f p of
           None \<Rightarrow> Some (status_only 404)
         | Some (File i) \<Rightarrow> Some \<lparr>rs_status = 200, rs_type = '''', rs_etag = [], rs_modified = None, rs_body = Some (BodyCopy (fs_data f i))\<rparr>
         | Some _ \<Rightarrow> Some \<lparr>rs_status = 200, rs_type = '''', rs_etag = [], rs_modified = None, rs_body = Some (BodyCopy [])\<rparr>)
      else
        (case readFile (fe_md5 env) zero_time f p zero_time of
           Inl e \<Rightarrow>
             Some (status_only (if e = ErrNotFound then 404 else if e = ErrNotModified then 304
                                else if e = ErrNotImplemented then 501 else 400))
         | Inr s \<Rightarrow>
             (case accept acc types of
                None \<Rightarrow> Some (status_only 406)
              | Some mime \<Rightarrow>
                  (case (if mime = MimeOctet then Converted (BodyBytes (AsRaw s))
                         else if mime = MimeCSV then AsScience (fe_panda env) (fe_fccs env) (fe_rfc3339 env) (fe_float env) s
                         else AsImage (fe_fccs env) (fe_decode env) (fe_encode env) (SubType mime) s) of
                     Converted b \<Rightarrow>
                       Some \<lparr>rs_status = 200, rs_type = mime, rs_etag = sf_sum s, rs_modified = Some (ModTime (fe_panda env) s),
                             rs_body = Some b\<rparr>
                   | ConversionError e \<Rightarrow> Some (status_only 500)
                   | _ \<Rightarrow> None))))"

section \<open>Properties\<close>

lemma accept_first: "accept a vs = (case filter (Contains a) vs of [] \<Rightarrow> None | v # _ \<Rightarrow> Some v)"
  by (induction vs) auto

lemma read_into_prefix:
  assumes "LENGTH('a::len) = 8 * n" and "length a = n"
  shows "read_into 0 (read_be n :: 'a word rd) (source (a @ b) e) = (get_be a, source b e)"
  using assms by (simp add: read_into_def read_be_def)

lemma AsRaw_parse:
  assumes "16 \<le> length bs"
  shows "AsRaw (parse_stored md5 bs) = bs" and "sf_sum (parse_stored md5 bs) = md5 (drop 16 bs)"
proof -
  define a b c d where "a = take 4 bs" and "b = take 4 (drop 4 bs)" and "c = take 8 (drop 8 bs)" and "d = drop 16 bs"
  have "drop 4 bs = b @ drop 8 bs" using append_take_drop_id [of 4 "drop 4 bs"] by (simp add: b_def)
  moreover have "drop 8 bs = c @ d" using append_take_drop_id [of 8 "drop 8 bs"] by (simp add: c_def d_def)
  ultimately have bs: "bs = a @ b @ c @ d" using append_take_drop_id [of 4 bs] by (simp add: a_def)
  have len: "length a = 4" "length b = 4" "length c = 8" using assms by (simp_all add: a_def b_def c_def)
  have "parse_stored md5 bs = \<lparr>sf_fcc = get_be a, sf_seq = get_be b, sf_when = get_be c, sf_sum = md5 d, sf_buf = d\<rparr>"
    using read_into_prefix [where 'a = 32 and n = 4 and a = a] read_into_prefix [where 'a = 32 and n = 4 and a = b]
      read_into_prefix [where 'a = 64 and n = 8 and a = c] len
    by (simp add: parse_stored_def Let_def bs)
  then show "AsRaw (parse_stored md5 bs) = bs" and "sf_sum (parse_stored md5 bs) = md5 (drop 16 bs)"
    using len bs by (simp_all add: AsRaw_def d_def [symmetric] put_get_be [where 'a = 32] put_get_be [where 'a = 64])
qed

text \<open>
  C24. What the storage wrote in the raw format is what the service returns: a request for the
  octet stream of a stored packet that has a four character code answers with exactly the bytes of the file, which
  are those of the encoded packet, and with the md5 sum of the bytes behind the preamble.
\<close>

theorem fetch_returns_stored_bytes:
  assumes "holds f (locate (Join [rawdir, url])) w" and "encodeRawPacket p = Inr w"
    and "hr_FCC p = Some fcc" and "length fcc = 4" and "length (raw_time p) = 8"
    and "hr_kind p \<noteq> OtherPacket"
    and "Contains acc MimeOctet" and "\<not> Contains acc ''application/xml''"
  shows "\<exists>t. fetch_ServeHTTP env rawdir f url acc =
    Some \<lparr>rs_status = 200, rs_type = MimeOctet, rs_etag = fe_md5 env (drop 16 w), rs_modified = Some t, rs_body = Some (BodyBytes w)\<rparr>"
proof -
  from assms(1) obtain i where i: "node_at f (locate (Join [rawdir, url])) = Some (File i)" "fs_data f i = w"
    by (auto simp: holds_def)
  have "Stat f (Join [rawdir, url]) = Some (File i)"
    using chase_stop [OF holds_no_link [OF assms(1)]] i by (simp add: Stat_def)
  then have rd: "readFile (fe_md5 env) zero_time f (Join [rawdir, url]) zero_time = Inr (parse_stored (fe_md5 env) w)"
    using i by (simp add: readFile_def)
  have "16 \<le> length w"
    using assms(2-6) by (auto simp: encodeRawPacket_def split: packet_kind.splits)
  then have "AsRaw (parse_stored (fe_md5 env) w) = w" "sf_sum (parse_stored (fe_md5 env) w) = fe_md5 env (drop 16 w)"
    by (rule AsRaw_parse)+
  moreover have "accept acc types = Some MimeOctet" using assms(7) by (simp add: types_def)
  moreover have "\<not> isAcceptable acc [''application/xml'']" using assms(8) by (simp add: isAcceptable_def)
  ultimately show ?thesis using rd by (simp add: fetch_ServeHTTP_def)
qed

definition sample_env :: fetch_env where
  "sample_env = \<lparr>fe_panda = sample_panda,
     fe_fccs = \<lparr>fc_SYNC = [1], fc_MMA = [2], fc_SVS = [3], fc_JPEG = [4], fc_PNG = [5], fc_YUY2 = [6], fc_Y800 = [7],
       fc_I420 = [8], fc_RGB = [9], fc_Y16B = [10], fc_Y16L = [11]\<rparr>,
     fe_md5 = (\<lambda>_. []), fe_rfc3339 = (\<lambda>_. []), fe_float = (\<lambda>_. []), fe_decode = (\<lambda>_. Inl EOF), fe_encode = (\<lambda>_ _. None)\<rparr>"

theorem fetch_returns_stored_bytes_witness:
  "\<exists>w t. fetch_ServeHTTP sample_env ''/data'' (snd (WriteFile ''/data/x.dat'' w sample_fs)) ''x.dat'' ''application/octet-stream'' =
     Some \<lparr>rs_status = 200, rs_type = MimeOctet, rs_etag = [], rs_modified = Some t, rs_body = Some (BodyBytes w)\<rparr>"
proof -
  obtain w where w: "encodeRawPacket sample_table = Inr w"
    by (simp add: encodeRawPacket_def sample_table_def)
  have n: "node_at sample_fs (locate ''/data/x.dat'') = None" "fst (WriteFile ''/data/x.dat'' w sample_fs) = None"
    "Join [''/data'', ''x.dat''] = ''/data/x.dat''" "Contains ''application/octet-stream'' MimeOctet"
    "\<not> Contains ''application/octet-stream'' ''application/xml''"
    by code_simp+
  have "holds (snd (WriteFile ''/data/x.dat'' w sample_fs)) (locate ''/data/x.dat'') w"
    by (rule WriteFile_holds [of sample_fs]) (simp_all add: is_link_def n prod_eq_iff)
  moreover have "hr_FCC sample_table = Some [0x4d, 0x4d, 0x41, 0x20]" "length (raw_time sample_table) = 8"
    "hr_kind sample_table \<noteq> OtherPacket" by (simp_all add: sample_table_def raw_time_def sample_sdh_def)
  ultimately show ?thesis
    using fetch_returns_stored_bytes [of "snd (WriteFile ''/data/x.dat'' w sample_fs)" "''/data''" "''x.dat''" w sample_table
        "[0x4d, 0x4d, 0x41, 0x20]" "''application/octet-stream''" sample_env] w n
    by (force simp: n sample_env_def)
qed

text \<open>
  Content negotiation picks the first of the supported types, in the order of the program, whose
  name occurs in the accept header: neither the order nor the weights of the header count, and a
  wildcard matches nothing, so that a client that accepts anything is refused.
\<close>

theorem accept_order:
  "accept a vs = (case filter (\<lambda>v. \<exists>b c. a = b @ v @ c) vs of [] \<Rightarrow> None | v # _ \<Rightarrow> Some v) \<and>
   accept ''*/*'' types = None"
proof -
  have "accept ''*/*'' types = None" by code_simp
  then show ?thesis by (simp add: accept_first Contains_iff [abs_def])
qed

end
