(* ===== verification/Monitor.thy ===== *)
theory Monitor
  imports Fetch Notifier
begin

text \<open>
  The monitor of the distribution server (\<^verbatim>\<open>src/distrib/monitor.go\<close>): it listens to the
  notifications of a multicast group and keeps the last ones per origin, mode and instance in
  rings. The unique identifiers and the clock are inputs.
\<close>

section \<open>Buffered reads of datagrams\<close>

text \<open>
  The socket is read through \<^verbatim>\<open>bufio.NewReader\<close>: the buffer holds up to 4096 bytes of one
  datagram, the rest of a longer datagram is lost. A read is \<open>None\<close> when it waits for a datagram
  that does not arrive.
\<close>

record bufreader =
  bf_buf :: bytes
  bf_in :: "bytes list"

type_synonym 'a brd = "bufreader \<Rightarrow> ('a \<times> bufreader) option"

definition buf_size :: nat where "buf_size = 4096"

fun fill_until :: "nat \<Rightarrow> bytes \<Rightarrow> bytes list \<Rightarrow> (bytes \<times> bufreader) option" where
  "fill_until k b [] = (if k \<le> length b then Some (take k b, \<lparr>bf_buf = drop k b, bf_in = []\<rparr>) else None)"
| "fill_until k b (d # ds) =
     (if k \<le> length b then Some (take k b, \<lparr>bf_buf = drop k b, bf_in = d # ds\<rparr>)
      else fill_until k (b @ take buf_size d) ds)"

text \<open>\<^verbatim>\<open>binary.Read\<close> of \<open>k\<close> bytes goes on with the next datagrams when the buffer has less.\<close>

definition buf_full :: "nat \<Rightarrow> bytes brd" where
  "buf_full k r = fill_until k (bf_buf r) (bf_in r)"

text \<open>
  A single \<^verbatim>\<open>Read\<close> gives what the buffer or the next datagram has; the rest of the slice
  stays zero. A slice of the size of the buffer or more is filled without it.
\<close>

definition buf_read :: "nat \<Rightarrow> bytes brd" where
  "buf_read n r =
     (let pad = (\<lambda>bs. bs @ replicate (n - length bs) 0) in
      if n = 0 then Some ([], r)
      else if bf_buf r \<noteq> [] then Some (pad (take n (bf_buf r)), r\<lparr>bf_buf := drop n (bf_buf r)\<rparr>)
      else (case bf_in r of
              [] \<Rightarrow> None
            | d # ds \<Rightarrow>
                if buf_size \<le> n then Some (pad (take n d), \<lparr>bf_buf = [], bf_in = ds\<rparr>)
                else Some (pad (take n d), \<lparr>bf_buf = drop n (take buf_size d), bf_in = ds\<rparr>)))"

definition br_bind :: "'a brd \<Rightarrow> ('a \<Rightarrow> 'b brd) \<Rightarrow> 'b brd" where
  "br_bind m f r = (case m r of None \<Rightarrow> None | Some (x, r') \<Rightarrow> f x r')"

definition br_return :: "'a \<Rightarrow> 'a brd" where
  "br_return x r = Some (x, r)"

definition buf_be :: "nat \<Rightarrow> 'a::len word brd" where
  "buf_be k = br_bind (buf_full k) (\<lambda>bs. br_return (get_be bs))"

section \<open>Decoding\<close>

text \<open>The errors of all reads are dropped; decoding never fails.\<close>

definition distrib_readString :: "string brd" where
  "distrib_readString =
     br_bind (buf_be 2) (\<lambda>z :: uint16. br_bind (buf_read (unat z)) (\<lambda>bs. br_return (string_of_bytes bs)))"

definition decodeMessage :: "Message brd" where
  "decodeMessage =
     br_bind distrib_readString (\<lambda>origin.
     br_bind (buf_be 4) (\<lambda>sq.
     br_bind (buf_be 4) (\<lambda>inst.
     br_bind (buf_be 1) (\<lambda>chan.
     br_bind (buf_full 1) (\<lambda>rt.
     br_bind (buf_be 4) (\<lambda>cnt.
     br_bind (buf_be 8) (\<lambda>ela.
     br_bind (buf_be 8) (\<lambda>gen.
     br_bind (buf_be 8) (\<lambda>acq.
     br_bind distrib_readString (\<lambda>ref.
     br_bind distrib_readString (\<lambda>upi.
     br_return \<lparr>msg_Origin = origin, msg_Sequence = sq, msg_Instance = inst, msg_Channel = chan,
       msg_Realtime = get_bool rt, msg_Count = cnt, msg_Elapsed = ela, msg_Generated = gen, msg_Acquired = acq,
       msg_Reference = ref, msg_UPI = upi\<rparr>)))))))))))"

section \<open>Rings\<close>

datatype monkey = Monkey (mk_Origin: string) (mk_Realtime: bool) (mk_Instance: uint32)

definition monkey_String :: "monkey \<Rightarrow> string" where
  "monkey_String k =
     mk_Origin k @ ''-'' @ (if mk_Realtime k then ''realtime'' else ''playback'') @ ''-'' @ pad_int 3 (sint (mk_Instance k))"

record entry =
  en_Uid :: string
  en_Count :: uint32
  en_Message :: Message

record ring =
  ri_when :: gotime
  ri_ms :: "entry option list"

record monitor =
  mo_count :: uint32
  mo_messages :: "(monkey \<times> ring) list"

definition new_monitor :: monitor where
  "new_monitor = \<lparr>mo_count = 0, mo_messages = []\<rparr>"

definition message_key :: "Message \<Rightarrow> monkey" where
  "message_key g = Monkey (msg_Origin g) (msg_Realtime g) (msg_Instance g)"

text \<open>The generation time of a message is turned into seconds of the Unix epoch.\<close>

definition adjust_generated :: "panda \<Rightarrow> Message \<Rightarrow> Message" where
  "adjust_generated pa g =
     g\<lparr>msg_Generated := word_of_int (go_div (GenerationTimeFromEpoch pa (sint (msg_Generated g))) 1000)\<rparr>"

text \<open>One round of the loop: message number \<open>i\<close> of the group goes into slot \<open>i mod n\<close> of the ring of its key.\<close>

definition monitor_add :: "nat \<Rightarrow> nat \<Rightarrow> gotime \<Rightarrow> string \<Rightarrow> Message \<Rightarrow> monitor \<Rightarrow> monitor" where
  "monitor_add n i now uid g m =
     (let k = message_key g;
          w = (case map_of (mo_messages m) k of None \<Rightarrow> \<lparr>ri_when = zero_time, ri_ms = replicate n None\<rparr> | Some w \<Rightarrow> w);
          c = mo_count m + 1
      in m\<lparr>mo_count := c,
           mo_messages := AList.update k
             \<lparr>ri_when = now, ri_ms = (ri_ms w)[i mod n := Some \<lparr>en_Uid = uid, en_Count = c, en_Message = g\<rparr>]\<rparr>
             (mo_messages m)\<rparr>)"

text \<open>The loop over as many rounds as there are clock readings; it stops where it waits for a datagram.\<close>

fun monitor_Monitor ::
  "panda \<Rightarrow> nat \<Rightarrow> nat \<Rightarrow> (gotime \<times> string) list \<Rightarrow> bufreader \<Rightarrow> monitor \<Rightarrow> monitor \<times> bufreader" where
  "monitor_Monitor pa n i [] r m = (m, r)"
| "monitor_Monitor pa n i ((now, uid) # ts) r m =
     (case decodeMessage r of
        None \<Rightarrow> (m, r)
      | Some (g, r') \<Rightarrow> monitor_Monitor pa n (i + 1) ts r' (monitor_add n i now uid (adjust_generated pa g) m))"

definition monitor_Clean :: "gotime \<Rightarrow> monitor \<Rightarrow> monitor" where
  "monitor_Clean t m =
     m\<lparr>mo_messages := filter (\<lambda>(k, w). \<not> (\<not> IsZero (ri_when w) \<and> 15 * 60 * 1000000000 < time_Sub t (ri_when w)))
         (mo_messages m)\<rparr>"

section \<open>Reports\<close>

text \<open>
  The entries of a ring as the service reports them: newest generation time first. Entries of the
  same second come in the reverse of their slots, as insertion sort with the comparison \<open>\<ge>\<close> leaves them;
  for more than twelve entries \<^verbatim>\<open>sort.Slice\<close> does not promise their order.
\<close>

definition report :: "ring \<Rightarrow> entry list" where
  "report w = rev (sort_slice (\<lambda>e. sint (msg_Generated (en_Message e))) (List.map_filter id (ri_ms w)))"

text \<open>Package xml cannot encode a map, so that the second format always answers with an error.\<close>

datatype monitor_response =
    MonitorStatus nat
  | MonitorJSON "(string \<times> entry list) list"

definition monitor_ServeHTTP :: "monitor \<Rightarrow> string \<Rightarrow> monitor_response" where
  "monitor_ServeHTTP m acc =
     (if mo_messages m = [] then MonitorStatus 204
      else if isAcceptable acc [''application/json''] then
        MonitorJSON (map (\<lambda>(k, w). (monkey_String k, report w)) (mo_messages m))
      else if isAcceptable acc [''application/xml''] then MonitorStatus 500
      else MonitorStatus 406)"

section \<open>Datagrams of the notifier\<close>

text \<open>
  The contract of a field that is read from the buffer: what was written is read back and
  the bytes behind it stay.
\<close>

locale buffered_field =
  fixes fits :: "'a \<Rightarrow> bool"
    and put :: "'a \<Rightarrow> bytes"
    and get :: "'a brd"
  assumes get_put: "fits x \<Longrightarrow> get \<lparr>bf_buf = put x @ rest, bf_in = ds\<rparr> = Some (x, \<lparr>bf_buf = rest, bf_in = ds\<rparr>)"
begin

lemma bind_put:
  "fits x \<Longrightarrow> br_bind get f \<lparr>bf_buf = put x @ rest, bf_in = ds\<rparr> = f x \<lparr>bf_buf = rest, bf_in = ds\<rparr>"
  by (simp add: br_bind_def get_put)

end

lemma fill_until_enough: "k \<le> length b \<Longrightarrow> fill_until k b ds = Some (take k b, \<lparr>bf_buf = drop k b, bf_in = ds\<rparr>)"
  by (cases ds) simp_all

lemma buf_full_append:
  "length a = k \<Longrightarrow> buf_full k \<lparr>bf_buf = a @ rest, bf_in = ds\<rparr> = Some (a, \<lparr>bf_buf = rest, bf_in = ds\<rparr>)"
  by (simp add: buf_full_def fill_until_enough)

lemma buf_be_append:
  "LENGTH('a::len) = 8 * k \<Longrightarrow>
     buf_be k \<lparr>bf_buf = put_be k (w :: 'a word) @ rest, bf_in = ds\<rparr> = Some (w, \<lparr>bf_buf = rest, bf_in = ds\<rparr>)"
  by (simp add: buf_be_def br_bind_def br_return_def buf_full_append get_put_be)

interpretation bf_u8: buffered_field "\<lambda>_. True" be8 "buf_be 1 :: uint8 brd"
  by unfold_locales (rule buf_be_append, simp)

interpretation bf_u16: buffered_field "\<lambda>_. True" be16 "buf_be 2 :: uint16 brd"
  by unfold_locales (rule buf_be_append, simp)

interpretation bf_u32: buffered_field "\<lambda>_. True" be32 "buf_be 4 :: uint32 brd"
  by unfold_locales (rule buf_be_append, simp)

interpretation bf_u64: buffered_field "\<lambda>_. True" be64 "buf_be 8 :: uint64 brd"
  by unfold_locales (rule buf_be_append, simp)

interpretation bf_string: buffered_field fits_string put_string distrib_readString
proof
  fix x rest ds
  assume "fits_string x"
  then have "unat (of_nat (length x) :: uint16) = length x"
    by (simp add: fits_string_def unat_of_nat_small)
  moreover have nil: "bytes_of_string s = [] \<longleftrightarrow> s = []" "string_of_bytes [] = []" for s
    by (simp_all add: bytes_of_string_def string_of_bytes_def)
  ultimately show "distrib_readString \<lparr>bf_buf = put_string x @ rest, bf_in = ds\<rparr> = Some (x, \<lparr>bf_buf = rest, bf_in = ds\<rparr>)"
    by (simp add: distrib_readString_def put_string_def bf_u16.bind_put) (auto simp: br_bind_def br_return_def buf_read_def nil)
qed

lemma bind_flag:
  "br_bind (buf_full 1) f \<lparr>bf_buf = put_bool b @ rest, bf_in = ds\<rparr> = f (put_bool b) \<lparr>bf_buf = rest, bf_in = ds\<rparr>"
  by (simp add: br_bind_def buf_full_append del: One_nat_def)

interpretation bf_message: buffered_field fits_message encode_message decodeMessage
proof
  fix m rest ds
  assume "fits_message m"
  then show "decodeMessage \<lparr>bf_buf = encode_message m @ rest, bf_in = ds\<rparr> = Some (m, \<lparr>bf_buf = rest, bf_in = ds\<rparr>)"
    by (simp add: decodeMessage_def encode_message_def fits_message_def bf_string.bind_put bf_u8.bind_put bf_u32.bind_put
        bf_u64.bind_put bind_flag br_return_def del: One_nat_def)
qed

lemma decodeMessage_fills:
  "decodeMessage \<lparr>bf_buf = [], bf_in = d # ds\<rparr> = decodeMessage \<lparr>bf_buf = take buf_size d, bf_in = ds\<rparr>"
  by (simp add: decodeMessage_def distrib_readString_def buf_be_def br_bind_def buf_full_def)

lemma decodeMessage_datagram:
  assumes "fits_message m" and "length (encode_message m) \<le> buf_size"
  shows "decodeMessage \<lparr>bf_buf = [], bf_in = encode_message m # ds\<rparr> = Some (m, \<lparr>bf_buf = [], bf_in = ds\<rparr>)"
  using bf_message.get_put [OF assms(1), of "[]" ds] assms(2) by (simp add: decodeMessage_fills)

section \<open>What the rings hold\<close>

definition ring_slot :: "monitor \<Rightarrow> monkey \<Rightarrow> nat \<Rightarrow> Message option" where
  "ring_slot m k j = (case map_of (mo_messages m) k of None \<Rightarrow> None | Some w \<Rightarrow> map_option en_Message (ri_ms w ! j))"

definition rings_ok :: "nat \<Rightarrow> monitor \<Rightarrow> bool" where
  "rings_ok n m \<longleftrightarrow> distinct (map fst (mo_messages m)) \<and> (\<forall>k w. map_of (mo_messages m) k = Some w \<longrightarrow> length (ri_ms w) = n)"

lemma rings_ok_new: "rings_ok n new_monitor"
  by (simp add: rings_ok_def new_monitor_def)

lemma rings_ok_add:
  "rings_ok n m \<Longrightarrow> rings_ok n (monitor_add n i now uid g m)"
  by (auto simp: rings_ok_def monitor_add_def Let_def distinct_update update_conv' split: option.splits if_splits)

lemma rings_ok_Clean: "rings_ok n m \<Longrightarrow> rings_ok n (monitor_Clean t m)"
  by (auto simp: rings_ok_def monitor_Clean_def distinct_map_filter dest!: map_of_SomeD split: prod.splits)

lemma monitor_add_slot:
  assumes "rings_ok n m" and "j < n"
  shows "ring_slot (monitor_add n i now uid g m) k j =
      (if k = message_key g \<and> j = i mod n then Some g else ring_slot m k j)"
proof (cases "map_of (mo_messages m) (message_key g)")
  case None
  with assms(2) show ?thesis
    by (simp add: ring_slot_def monitor_add_def Let_def update_conv' nth_list_update)
next
  case (Some w)
  with assms have "length (ri_ms w) = n" by (auto simp: rings_ok_def)
  with Some assms(2) show ?thesis
    by (simp add: ring_slot_def monitor_add_def Let_def update_conv' nth_list_update)
qed

definition latest :: "nat \<Rightarrow> nat \<Rightarrow> monkey \<Rightarrow> nat \<Rightarrow> Message list \<Rightarrow> Message option" where
  "latest n i k j gs =
     (case filter (\<lambda>(x, g). message_key g = k \<and> x mod n = j) (enumerate i gs) of
        [] \<Rightarrow> None | xs \<Rightarrow> Some (snd (last xs)))"

lemma latest_Cons:
  "latest n i k j (g # gs) =
     (case latest n (Suc i) k j gs of
        Some h \<Rightarrow> Some h | None \<Rightarrow> if message_key g = k \<and> i mod n = j then Some g else None)"
  by (simp add: latest_def split: list.split)

lemma monitor_Monitor_slots:
  assumes "j < n" and "rings_ok n m"
    and "\<forall>g\<in>set gs. fits_message g \<and> length (encode_message g) \<le> buf_size" and "length ts = length gs"
  shows "snd (monitor_Monitor pa n i ts \<lparr>bf_buf = [], bf_in = map encode_message gs\<rparr> m) = \<lparr>bf_buf = [], bf_in = []\<rparr> \<and>
    ring_slot (fst (monitor_Monitor pa n i ts \<lparr>bf_buf = [], bf_in = map encode_message gs\<rparr> m)) k j =
      (case latest n i k j (map (adjust_generated pa) gs) of Some g \<Rightarrow> Some g | None \<Rightarrow> ring_slot m k j)"
  using assms(2-4)
proof (induction gs arbitrary: i ts m)
  case Nil
  then show ?case by (simp add: latest_def)
next
  case (Cons g gs)
  then obtain now uid ts' where ts: "ts = (now, uid) # ts'" by (metis length_Suc_conv list.simps(3) surj_pair)
  let ?m = "monitor_add n i now uid (adjust_generated pa g) m"
  have "rings_ok n ?m" by (rule rings_ok_add [OF Cons.prems(1)])
  with Cons.IH [of ?m ts' "Suc i"] Cons.prems ts show ?case
    by (simp add: decodeMessage_datagram latest_Cons monitor_add_slot [OF Cons.prems(1) assms(1)] split: option.splits)
qed

text \<open>
  C30. The monitor behind a notifier: from the datagrams of any messages that fit a datagram
  buffer, it keeps, for every origin, mode and instance and in every slot, the last message
  of that key among those whose number in the group falls on the slot, and waits for the next
  datagram. As the number counts the messages of all keys, a key does not get its own
  last messages: when messages of two keys alternate, each key uses every second slot only.
\<close>

theorem monitor_slots:
  assumes "j < n" and "\<forall>g\<in>set gs. fits_message g \<and> length (encode_message g) \<le> buf_size" and "length ts = length gs"
  shows "snd (monitor_Monitor pa n 0 ts \<lparr>bf_buf = [], bf_in = map encode_message gs\<rparr> new_monitor) = \<lparr>bf_buf = [], bf_in = []\<rparr> \<and>
    ring_slot (fst (monitor_Monitor pa n 0 ts \<lparr>bf_buf = [], bf_in = map encode_message gs\<rparr> new_monitor)) k j =
      latest n 0 k j (map (adjust_generated pa) gs)"
  using monitor_Monitor_slots [OF assms(1) rings_ok_new assms(2,3)]
  by (simp add: ring_slot_def new_monitor_def split: option.split)

theorem monitor_slots_witness:
  "ring_slot (fst (monitor_Monitor sample_panda 300 0 [(zero_time, ''u'')]
     \<lparr>bf_buf = [], bf_in = map encode_message [sample_message]\<rparr> new_monitor)) (message_key sample_message) 0 =
   Some (adjust_generated sample_panda sample_message)"
proof -
  have "fits_message sample_message \<and> length (encode_message sample_message) \<le> buf_size"
    by (simp add: fits_message_def fits_string_def sample_message_def encode_message_def put_string_def buf_size_def new_Message_def)
  moreover have "message_key (adjust_generated sample_panda sample_message) = message_key sample_message"
    by (simp add: message_key_def adjust_generated_def)
  ultimately show ?thesis
    using monitor_slots [of 0 300 "[sample_message]" "[(zero_time, ''u'')]" sample_panda "message_key sample_message"]
    by (simp add: latest_def)
qed

text \<open>The states of a monitor: it starts empty, several groups add messages, and old rings are dropped.\<close>

inductive monitor_reach :: "nat \<Rightarrow> monitor \<Rightarrow> bool" for n where
  fresh: "monitor_reach n new_monitor"
| added: "monitor_reach n m \<Longrightarrow> monitor_reach n (monitor_add n i now uid g m)"
| cleaned: "monitor_reach n m \<Longrightarrow> monitor_reach n (monitor_Clean t m)"

lemma reach_rings_ok: "monitor_reach n m \<Longrightarrow> rings_ok n m"
  by (induction rule: monitor_reach.induct) (simp_all add: rings_ok_new rings_ok_add rings_ok_Clean)

lemma length_map_filter: "length (List.map_filter f xs) \<le> length xs"
  by (induction xs) (auto simp: map_filter_simps split: option.splits)

text \<open>
  C31. In every state the monitor can reach, a report has one list per key, each with at most as
  many entries as the ring has slots, all of them entries of the ring, ordered by generation
  time with the newest first; the service answers so for JSON, and never answers a request for XML with data.
\<close>

theorem monitor_report_bounds:
  assumes "monitor_reach n m" and "isAcceptable acc [''application/json'']" and "mo_messages m \<noteq> []"
  shows "\<exists>rs. monitor_ServeHTTP m acc = MonitorJSON rs \<and> length rs = card (dom (map_of (mo_messages m))) \<and>
    (\<forall>(s, es)\<in>set rs. \<exists>k w. map_of (mo_messages m) k = Some w \<and> s = monkey_String k \<and> length es \<le> n \<and>
       Some ` set es = set (ri_ms w) - {None} \<and>
       sorted (map (\<lambda>e. sint (msg_Generated (en_Message e))) (rev es)))"
proof -
  have ok: "rings_ok n m" by (rule reach_rings_ok [OF assms(1)])
  then have d: "distinct (map fst (mo_messages m))" by (simp add: rings_ok_def)
  have "length (mo_messages m) = card (dom (map_of (mo_messages m)))"
    using distinct_card [OF d] by (simp add: dom_map_of_conv_image_fst)
  moreover have "length (report w) \<le> n \<and> Some ` set (report w) = set (ri_ms w) - {None} \<and>
      sorted (map (\<lambda>e. sint (msg_Generated (en_Message e))) (rev (report w)))" if "map_of (mo_messages m) k = Some w" for k w
  proof -
    have "length (ri_ms w) = n" using that ok by (auto simp: rings_ok_def)
    with length_map_filter [of id "ri_ms w"] have "length (report w) \<le> n" by (simp add: report_def)
    then show ?thesis using sorted_sort_slice by (auto simp: report_def map_filter_def image_iff)
  qed
  ultimately show ?thesis
    using assms(2,3) d by (auto simp: monitor_ServeHTTP_def) blast
qed

theorem monitor_report_bounds_witness:
  "\<exists>rs. monitor_ServeHTTP (monitor_add 300 0 zero_time ''u'' sample_message new_monitor) ''application/json'' = MonitorJSON rs \<and>
     length rs = 1"
proof -
  let ?m = "monitor_add 300 0 zero_time ''u'' sample_message new_monitor"
  have "isAcceptable ''application/json'' [''application/json'']" by code_simp
  moreover have "mo_messages ?m \<noteq> []" "card (dom (map_of (mo_messages ?m))) = 1"
    by (simp_all add: monitor_add_def new_monitor_def Let_def update_conv')
  ultimately show ?thesis
    using monitor_report_bounds [of 300 ?m "''application/json''"] monitor_reach.added [OF monitor_reach.fresh] by auto
qed

text \<open>A request for XML that does not also accept JSON is answered with an internal error.\<close>

lemma monitor_xml_fails:
  "mo_messages m \<noteq> [] \<Longrightarrow> \<not> isAcceptable acc [''application/json''] \<Longrightarrow> isAcceptable acc [''application/xml''] \<Longrightarrow>
     monitor_ServeHTTP m acc = MonitorStatus 500"
  by (simp add: monitor_ServeHTTP_def)

text \<open>
  A datagram of a single byte is taken for the first byte of the message in the next one: nothing brings
  the decoder back to the start of a datagram.
\<close>

lemma stray_byte_shifts:
  "decodeMessage \<lparr>bf_buf = [], bf_in = [b] # d # ds\<rparr> = decodeMessage \<lparr>bf_buf = b # take buf_size d, bf_in = ds\<rparr>"
  by (simp add: decodeMessage_fills buf_size_def) (simp add: decodeMessage_def distrib_readString_def buf_be_def br_bind_def buf_full_def buf_size_def)

end
