(* ===== verification/Distrib.thy ===== *)
theory Distrib
  imports Monitor
begin

text \<open>
  The other services of the distribution server (\<^verbatim>\<open>src/distrib\<close>): the directory browser
  (\<^verbatim>\<open>browse.go\<close>), the archive download (\<^verbatim>\<open>archive.go\<close>) and the rate limiter (\<^verbatim>\<open>limit.go\<close>).
  Requests are values, \<^verbatim>\<open>time.Parse\<close> and the token bucket of package rate are parameters.
\<close>

section \<open>Browser\<close>

text \<open>What \<^verbatim>\<open>ioutil.ReadDir\<close> tells of an entry.\<close>

record dirent =
  de_Name :: string
  de_Size :: int
  de_ModTime :: gotime
  de_IsDir :: bool

record info =
  in_Name :: string
  in_Mod :: gotime
  in_Size :: int
  in_Regular :: bool
  in_Acq :: gotime
  in_Ori :: int
  in_Seq :: int
  in_Format :: string

text \<open>\<^verbatim>\<open>strings.FieldsFunc\<close> with underscores and dots as separators.\<close>

fun FieldsFunc :: "string \<Rightarrow> string \<Rightarrow> string list" where
  "FieldsFunc w [] = (if w = [] then [] else [w])"
| "FieldsFunc w (c # s) =
     (if c = CHR ''_'' \<or> c = CHR ''.'' then (if w = [] then FieldsFunc [] s else w # FieldsFunc [] s) else FieldsFunc (w @ [c]) s)"

text \<open>
  \<^verbatim>\<open>strconv.Atoi\<close> with its error dropped: zero for a text that is not a number, the nearest int64 for
  a number out of range.
\<close>

definition Atoi :: "string \<Rightarrow> int" where
  "Atoi s =
     (let neg = HasPrefix s ''-'';
          ds = (if neg \<or> HasPrefix s ''+'' then tl s else s);
          v = int (digits_val 0 ds)
      in if ds = [] \<or> \<not> list_all is_digit ds then 0
         else if neg then max (- (2 ^ 63)) (- v) else min (2 ^ 63 - 1) v)"

text \<open>
  The goroutine that describes the entries; \<open>None\<close> when an index is out of range, a panic that
  ends the whole program. \<open>Parse\<close> is \<^verbatim>\<open>time.Parse("20060102_150405", s)\<close>, the zero time on an error.
\<close>

fun readDir :: "(string \<Rightarrow> gotime) \<Rightarrow> dirent list \<Rightarrow> info list option" where
  "readDir Parse [] = Some []"
| "readDir Parse (d # ds) =
     (if Ext (de_Name d) = ''.xml'' then readDir Parse ds
      else
        let n = \<lparr>in_Name = Base (de_Name d), in_Mod = de_ModTime d, in_Size = de_Size d, in_Regular = \<not> de_IsDir d,
                 in_Acq = zero_time, in_Ori = 0, in_Seq = 0, in_Format = ''''\<rparr>;
            fs = FieldsFunc [] (in_Name n)
        in if de_IsDir d then map_option ((#) n) (readDir Parse ds)
           else if length fs < 5 then None
           else map_option ((#) (n\<lparr>in_Ori := Atoi (fs ! 0), in_Seq := Atoi (fs ! 1),
                  in_Acq := Parse (fs ! 2 @ ''_'' @ fs ! 3), in_Format := fs ! 4\<rparr>)) (readDir Parse ds))"

datatype listing =
    ListStatus nat
  | ListJSON "info list"
  | ListXML "info list"
  | ListCSV "string list list"

text \<open>\<open>entries\<close> is the result of \<^verbatim>\<open>ioutil.ReadDir\<close> on the directory of the request.\<close>

definition browser_ServeHTTP ::
  "(string \<Rightarrow> gotime) \<Rightarrow> (gotime \<Rightarrow> string) \<Rightarrow> dirent list outcome \<Rightarrow> string \<Rightarrow> listing option" where
  "browser_ServeHTTP Parse rfc3339 entries acc =
     (case entries of
        Inl _ \<Rightarrow> Some (ListStatus 404)
      | Inr ds \<Rightarrow>
          (case readDir Parse ds of
             None \<Rightarrow> None
           | Some ns \<Rightarrow>
               Some (if isAcceptable acc [''application/json''] then ListJSON ns
                     else if isAcceptable acc [''application/xml''] then ListXML ns
                     else if isAcceptable acc [''text/csv'']
                     then ListCSV (map (\<lambda>i. [in_Name i, rfc3339 (in_Mod i), Itoa (in_Size i)]) ns)
                     else ListStatus 406)))"

section \<open>Downloads\<close>

record query =
  qu_File :: string
  qu_Type :: string
  qu_Level :: int
  qu_Flat :: bool
  qu_Meta :: bool

text \<open>
  \<open>form\<close> is the submitted form (an empty string for a missing value), or the error of
  \<^verbatim>\<open>ParseForm\<close>; \<open>now\<close> the current time, formatted.
\<close>

definition parseQuery ::
  "(string \<Rightarrow> bool option) \<Rightarrow> string \<Rightarrow> (string \<Rightarrow> string) outcome \<Rightarrow> query outcome" where
  "parseQuery ParseBool now form =
     (case form of
        Inl e \<Rightarrow> Inl e
      | Inr get \<Rightarrow>
          Inr \<lparr>qu_File = (if get ''filename'' = '''' then ''archive_'' @ now else get ''filename''),
               qu_Type = get ''type'', qu_Level = Atoi (get ''level''), qu_Flat = False,
               qu_Meta = (case ParseBool (get ''meta'') of None \<Rightarrow> False | Some b \<Rightarrow> b)\<rparr>)"

text \<open>
  The calls \<^verbatim>\<open>filepath.Walk\<close> makes: an error of the walk, or a path with its directory flag and its contents
  when it can be opened.
\<close>

datatype walked = WalkError go_error | Walked string bool "bytes option"

text \<open>The entries that the tar and the zip writer put into the archive, and the error that ended the walk.\<close>

fun archive_walk :: "string \<Rightarrow> bool \<Rightarrow> bool \<Rightarrow> walked list \<Rightarrow> (string \<times> bytes) list \<times> go_error option" where
  "archive_walk strip flat meta [] = ([], None)"
| "archive_walk strip flat meta (WalkError e # ws) = ([], Some e)"
| "archive_walk strip flat meta (Walked p dir content # ws) =
     (let (es, e) = archive_walk strip flat meta ws in
      if dir \<or> \<not> meta \<and> Ext p = ''.xml'' then (es, e)
      else (case content of
              None \<Rightarrow> (es, e)
            | Some bs \<Rightarrow> ((if flat then Base p else TrimPrefix p strip, bs) # es, e)))"

definition writeTar :: "string \<Rightarrow> bool \<Rightarrow> bool \<Rightarrow> walked list \<Rightarrow> (string \<times> bytes) list \<times> go_error option" where
  "writeTar strip flat meta ws = archive_walk strip flat meta ws"

definition writeZip :: "string \<Rightarrow> bool \<Rightarrow> bool \<Rightarrow> walked list \<Rightarrow> (string \<times> bytes) list \<times> go_error option" where
  "writeZip strip flat meta ws = archive_walk strip flat meta ws"

text \<open>The response: a status, or the name of the attachment, its type and its entries. The error of the walk is dropped.\<close>

datatype download_response = DownloadStatus nat | Attachment string string "(string \<times> bytes) list"

definition downloader_ServeHTTP ::
  "(string \<Rightarrow> bool option) \<Rightarrow> string \<Rightarrow> string \<Rightarrow> (string \<Rightarrow> walked list) \<Rightarrow> string \<Rightarrow> (string \<Rightarrow> string) outcome \<Rightarrow>
     download_response" where
  "downloader_ServeHTTP ParseBool now d walk url form =
     (case parseQuery ParseBool now form of
        Inl _ \<Rightarrow> DownloadStatus 400
      | Inr q \<Rightarrow>
          let n = qu_File q @ ''.'' @ qu_Type q; p = Join [d, url] in
          if qu_Type q = ''tar''
          then Attachment n ''application/x-tar'' (fst (writeTar d (qu_Flat q) (qu_Meta q) (walk p)))
          else if qu_Type q = ''zip''
          then Attachment n ''application/zip'' (fst (writeZip d (qu_Flat q) (qu_Meta q) (walk p)))
          else DownloadStatus 400)"

section \<open>Rate limiter\<close>

record 'l visitor =
  vi_when :: gotime
  vi_rate :: 'l

type_synonym 'l visitors = "string \<rightharpoonup> 'l visitor"

text \<open>\<^verbatim>\<open>visitor.Allow\<close>: the time of the request is noted, then the bucket decides.\<close>

definition visitor_Allow :: "('l \<Rightarrow> gotime \<Rightarrow> bool \<times> 'l) \<Rightarrow> gotime \<Rightarrow> 'l visitor \<Rightarrow> bool \<times> 'l visitor" where
  "visitor_Allow allow now v = (let (ok, l) = allow (vi_rate v) now in (ok, \<lparr>vi_when = now, vi_rate = l\<rparr>))"

text \<open>\<open>fresh\<close> is the result of \<^verbatim>\<open>rate.NewLimiter\<close>, \<open>allow\<close> the method \<^verbatim>\<open>Allow\<close> of the bucket at a time.\<close>

definition limiter_Allow ::
  "'l \<Rightarrow> ('l \<Rightarrow> gotime \<Rightarrow> bool \<times> 'l) \<Rightarrow> gotime \<Rightarrow> string \<Rightarrow> 'l visitors \<Rightarrow> bool \<times> 'l visitors" where
  "limiter_Allow fresh allow now addr vs =
     (let v = (case vs addr of None \<Rightarrow> \<lparr>vi_when = now, vi_rate = fresh\<rparr> | Some v \<Rightarrow> v);
          (ok, v') = visitor_Allow allow now v
      in (ok, vs(addr \<mapsto> v')))"

definition visitor_idle :: int where "visitor_idle = 120 * 1000000000"

definition limiter_purge :: "gotime \<Rightarrow> 'l visitors \<Rightarrow> 'l visitors" where
  "limiter_purge t vs =
     (\<lambda>a. case vs a of None \<Rightarrow> None | Some v \<Rightarrow> if visitor_idle \<le> time_Sub t (vi_when v) then None else Some v)"

text \<open>The handler: without a limit the requests go through, else those refused are answered with status 429.\<close>

definition Limit ::
  "int \<Rightarrow> 'l \<Rightarrow> ('l \<Rightarrow> gotime \<Rightarrow> bool \<times> 'l) \<Rightarrow> gotime \<Rightarrow> string \<Rightarrow> 'r \<Rightarrow> (nat \<Rightarrow> 'r) \<Rightarrow> 'l visitors \<Rightarrow> 'r \<times> 'l visitors" where
  "Limit n fresh allow now addr response status vs =
     (if n \<le> 0 then (response, vs)
      else let (ok, vs') = limiter_Allow fresh allow now addr vs in (if ok then response else status 429, vs'))"

datatype limiter_event = Request gotime string | Purge gotime

fun event_time :: "limiter_event \<Rightarrow> int" where
  "event_time (Request t a) = t_ns t"
| "event_time (Purge t) = t_ns t"

fun limiter_run ::
  "'l \<Rightarrow> ('l \<Rightarrow> gotime \<Rightarrow> bool \<times> 'l) \<Rightarrow> limiter_event list \<Rightarrow> 'l visitors \<Rightarrow> (string \<times> bool) list" where
  "limiter_run fresh allow [] vs = []"
| "limiter_run fresh allow (Request now a # es) vs =
     (let (ok, vs') = limiter_Allow fresh allow now a vs in (a, ok) # limiter_run fresh allow es vs')"
| "limiter_run fresh allow (Purge t # es) vs = limiter_run fresh allow es (limiter_purge t vs)"

section \<open>Properties of the browser and of the downloads\<close>

text \<open>
  Listing a directory ends the server when the directory has one regular file, other than
  metadata, whose name has less than five parts separated by underscores and dots; otherwise every entry but
  the metadata is described, in the order of the directory.
\<close>

theorem readDir_panics:
  "(readDir Parse ds = None \<longleftrightarrow>
     (\<exists>d\<in>set ds. Ext (de_Name d) \<noteq> ''.xml'' \<and> \<not> de_IsDir d \<and> length (FieldsFunc [] (Base (de_Name d))) < 5)) \<and>
   (\<forall>ns. readDir Parse ds = Some ns \<longrightarrow>
      map (\<lambda>n. (in_Name n, in_Size n)) ns =
        map (\<lambda>d. (Base (de_Name d), de_Size d)) (filter (\<lambda>d. Ext (de_Name d) \<noteq> ''.xml'') ds))"
proof (induction ds)
  case (Cons d ds)
  then show ?case
    by (cases "Ext (de_Name d) = ''.xml''"; cases "de_IsDir d") (auto simp: Let_def)
qed simp

theorem readDir_panics_witness:
  "readDir (\<lambda>_. zero_time) [\<lparr>de_Name = ''readme.txt'', de_Size = 1, de_ModTime = zero_time, de_IsDir = False\<rparr>] = None"
proof -
  have "Ext ''readme.txt'' \<noteq> ''.xml'' \<and> length (FieldsFunc [] (Base ''readme.txt'')) < 5" by code_simp
  then show ?thesis
    using readDir_panics [of "\<lambda>_. zero_time"
        "[\<lparr>de_Name = ''readme.txt'', de_Size = 1, de_ModTime = zero_time, de_IsDir = False\<rparr>]"] by simp
qed

lemma archive_walk_entries:
  assumes "\<forall>e. WalkError e \<notin> set ws"
  shows "archive_walk strip flat meta ws =
    (concat (map (\<lambda>w. case w of
        WalkError _ \<Rightarrow> []
      | Walked p d c \<Rightarrow>
          if d \<or> \<not> meta \<and> Ext p = ''.xml'' then []
          else (case c of None \<Rightarrow> [] | Some bs \<Rightarrow> [(if flat then Base p else TrimPrefix p strip, bs)])) ws), None)"
  using assms
proof (induction ws)
  case (Cons w ws)
  then show ?case by (cases w) (auto split: option.splits)
qed simp

section \<open>Properties of the limiter\<close>

definition used :: "('l \<Rightarrow> gotime \<Rightarrow> bool \<times> 'l) \<Rightarrow> 'l visitor \<Rightarrow> bool" where
  "used allow v \<longleftrightarrow> (\<exists>l. vi_rate v = snd (allow l (vi_when v)))"

text \<open>
  The bucket of a visitor that was dropped is, in the run without purges, one that was not used for two
  minutes.
\<close>

definition refills :: "'l \<Rightarrow> ('l \<Rightarrow> gotime \<Rightarrow> bool \<times> 'l) \<Rightarrow> bool" where
  "refills fresh allow \<longleftrightarrow>
     (\<forall>l t now. visitor_idle \<le> t_ns now - t_ns t \<longrightarrow> allow (snd (allow l t)) now = allow fresh now)"

definition purge_related :: "('l \<Rightarrow> gotime \<Rightarrow> bool \<times> 'l) \<Rightarrow> int \<Rightarrow> 'l visitors \<Rightarrow> 'l visitors \<Rightarrow> bool" where
  "purge_related allow T vs us \<longleftrightarrow>
     (\<forall>a v. us a = Some v \<longrightarrow> used allow v) \<and>
     (\<forall>a. vs a = us a \<or> vs a = None \<and> (\<exists>v. us a = Some v \<and> visitor_idle \<le> T - t_ns (vi_when v)))"

lemma two_minutes: "visitor_idle \<le> time_Sub t u \<longleftrightarrow> visitor_idle \<le> t_ns t - t_ns u"
  by (simp add: time_Sub_def max_duration_def visitor_idle_def) linarith

lemma used_Allow: "snd (visitor_Allow allow now v) = v' \<Longrightarrow> used allow v'"
  by (auto simp: visitor_Allow_def used_def split: prod.splits) (metis snd_conv)

lemma purge_related_purge:
  assumes "purge_related allow T vs us" and "T \<le> t_ns t"
  shows "purge_related allow (t_ns t) (limiter_purge t vs) us"
  unfolding purge_related_def
proof (intro conjI allI)
  fix a
  from assms(1) consider "vs a = us a" | v where "vs a = None" "us a = Some v" "visitor_idle \<le> T - t_ns (vi_when v)"
    unfolding purge_related_def by blast
  then show "limiter_purge t vs a = us a \<or> limiter_purge t vs a = None \<and>
      (\<exists>v. us a = Some v \<and> visitor_idle \<le> t_ns t - t_ns (vi_when v))"
  proof cases
    case 1
    then show ?thesis by (cases "us a") (simp_all add: limiter_purge_def two_minutes)
  next
    case 2
    with assms(2) show ?thesis by (simp add: limiter_purge_def)
  qed
qed (use assms in \<open>auto simp: purge_related_def\<close>)

lemma purge_related_Allow:
  assumes "purge_related allow T vs us" and "T \<le> t_ns now"
    and "refills fresh allow"
  shows "fst (limiter_Allow fresh allow now a vs) = fst (limiter_Allow fresh allow now a us)"
    and "purge_related allow (t_ns now) (snd (limiter_Allow fresh allow now a vs)) (snd (limiter_Allow fresh allow now a us))"
proof -
  let ?bucket = "\<lambda>vs. case vs a of None \<Rightarrow> fresh | Some v \<Rightarrow> vi_rate v"
  have run: "limiter_Allow fresh allow now a ws =
      (fst (allow (?bucket ws) now), ws(a \<mapsto> \<lparr>vi_when = now, vi_rate = snd (allow (?bucket ws) now)\<rparr>))" for ws
    by (simp add: limiter_Allow_def visitor_Allow_def split: option.splits prod.splits)
  have same: "allow (?bucket vs) now = allow (?bucket us) now"
  proof (cases "vs a = us a")
    case False
    with assms(1) obtain v where v: "vs a = None" "us a = Some v" "visitor_idle \<le> T - t_ns (vi_when v)" "used allow v"
      unfolding purge_related_def by blast
    from v(4) obtain l where "vi_rate v = snd (allow l (vi_when v))" by (auto simp: used_def)
    with v assms(2,3) show ?thesis by (simp add: refills_def)
  qed simp
  then show "fst (limiter_Allow fresh allow now a vs) = fst (limiter_Allow fresh allow now a us)"
    by (simp add: run)
  have "used allow \<lparr>vi_when = now, vi_rate = snd (allow (?bucket us) now)\<rparr>" by (auto simp: used_def)
  moreover have "visitor_idle \<le> t_ns now - t_ns w" if "visitor_idle \<le> T - t_ns w" for w :: gotime
    using that assms(2) by linarith
  ultimately show "purge_related allow (t_ns now) (snd (limiter_Allow fresh allow now a vs)) (snd (limiter_Allow fresh allow now a us))"
    using assms(1) by (auto simp: purge_related_def run same)
qed

fun is_Request :: "limiter_event \<Rightarrow> bool" where
  "is_Request (Request t a) = True"
| "is_Request (Purge t) = False"

lemma limiter_run_related:
  assumes "refills fresh allow"
    and "purge_related allow T vs us" and "sorted (T # map event_time es)"
  shows "limiter_run fresh allow es vs = limiter_run fresh allow (filter is_Request es) us"
  using assms(2,3)
proof (induction es arbitrary: T vs us)
  case (Cons e es)
  show ?case
  proof (cases e)
    case (Request now a)
    with Cons.prems have "T \<le> t_ns now" "sorted (t_ns now # map event_time es)" by simp_all
    with Request Cons.IH purge_related_Allow [OF Cons.prems(1) _ assms(1), of now a] show ?thesis
      by (simp add: case_prod_beta)
  next
    case (Purge t)
    with Cons.prems have "T \<le> t_ns t" "sorted (t_ns t # map event_time es)" by simp_all
    with Purge Cons.IH [OF purge_related_purge [OF Cons.prems(1)]] show ?thesis by simp
  qed
qed simp


text \<open>A bucket of ten tokens that gets one token per second, as a pair of the tokens and of the time of the last request.\<close>

definition sample_bucket :: "int \<times> int \<Rightarrow> gotime \<Rightarrow> bool \<times> (int \<times> int)" where
  "sample_bucket l now =
     (let tokens = min 10 (fst l + max 0 ((t_ns now - snd l) div 1000000000))
      in if 0 < tokens then (True, (tokens - 1, t_ns now)) else (False, (max 0 tokens, t_ns now)))"

definition sample_requests :: "limiter_event list" where
  "sample_requests = [Request (time_Unix 0 0) ''a:1'', Request (time_Unix 0 10) ''b:1'', Purge (time_Unix 0 125), Request (time_Unix 0 130) ''a:1'']"


end
