(* ===== verification/Tools.thy ===== *)
theory Tools
  imports Archives Plugins Notifier Replay Distrib
begin

text \<open>
  The small commands: \<^verbatim>\<open>dispatch\<close>, \<^verbatim>\<open>monitor\<close> and the set up of \<^verbatim>\<open>distrib\<close> (\<^verbatim>\<open>src/cmd/hadock\<close>), the walk over
  the files of a replay, and the converter of MMA files (\<^verbatim>\<open>src/cmd/mmaconv\<close>).
\<close>

section \<open>Dispatch\<close>

definition scanPackets :: "bytes \<Rightarrow> bool \<Rightarrow> split_result" where
  "scanPackets bs ateof =
     (if ateof then Final (length bs) bs
      else if length bs < 4 then Need
      else let sz = unat (get_be (take 4 bs) :: uint32) + 4
           in if length bs < sz then Need else Token sz (take (sz - 4) (drop 4 bs)))"

text \<open>How a scan ended, as an error: \<^verbatim>\<open>bufio.ErrFinalToken\<close> is none.\<close>

definition scan_err :: "scan_end \<Rightarrow> go_error option" where
  "scan_err e = (case e of ScanDone \<Rightarrow> None | ErrTooLong \<Rightarrow> Some (ErrSentinel ''token too long'') | ScanPanic \<Rightarrow> Some (GoPanic ''slice bounds''))"

text \<open>A file of a walk: an error, a directory, or a file with its contents cut by the reads, or the error of opening it.\<close>

datatype walk_file = WalkErr go_error | WalkDir | WalkFile "bytes list outcome"

text \<open>Every token is read into a struct without fields, which takes no byte and never fails.\<close>

fun runDispatch :: "walk_file list \<Rightarrow> go_error option" where
  "runDispatch [] = None"
| "runDispatch (WalkErr e # fs) = Some e"
| "runDispatch (WalkDir # fs) = runDispatch fs"
| "runDispatch (WalkFile (Inl e) # fs) = Some e"
| "runDispatch (WalkFile (Inr chunks) # fs) =
     (case scan_err (snd (scan scanPackets (8 * 2 ^ 20) [] chunks)) of Some e \<Rightarrow> Some e | None \<Rightarrow> runDispatch fs)"

section \<open>Walking the files of a replay\<close>

text \<open>The tokens sent to the queue; an error ends the walk of the directory, the next one is walked all the same.\<close>

fun walk :: "nat \<Rightarrow> nat \<Rightarrow> walk_file list \<Rightarrow> bytes list \<times> go_error option" where
  "walk hl sl [] = ([], None)"
| "walk hl sl (WalkErr e # fs) = ([], Some e)"
| "walk hl sl (WalkDir # fs) = walk hl sl fs"
| "walk hl sl (WalkFile (Inl e) # fs) = ([], Some e)"
| "walk hl sl (WalkFile (Inr chunks) # fs) =
     (let (ts, end) = scan (scanVMUPackets hl sl) (8 * 2 ^ 20) [] chunks in
      case scan_err end of
        Some e \<Rightarrow> (ts, Some e)
      | None \<Rightarrow> let (us, e) = walk hl sl fs in (ts @ us, e))"

definition walkPaths :: "nat \<Rightarrow> nat \<Rightarrow> walk_file list list \<Rightarrow> bytes list" where
  "walkPaths hl sl ds = concat (map (\<lambda>d. fst (walk hl sl d)) ds)"

section \<open>Monitor command\<close>

text \<open>
  The loop over the notifications of all groups, which a pipe puts one after the other; the result is
  the list of messages printed, with the generation time adjusted and the mode, and the error that ends the program. The
  loop ends because every message takes bytes.
\<close>

definition monitor_row :: "panda \<Rightarrow> Message \<Rightarrow> Message \<times> string \<times> gotime \<times> gotime" where
  "monitor_row pa m =
     (m, if msg_Realtime m then ''realtime'' else ''playback'', AdjustGenerationTime pa (sint (msg_Generated m)),
      time_Unix 0 (sint (msg_Acquired m)))"

lemma readString_strict: "strict_read readString"
  unfolding readString_def by (intro strict_read_bind strict_read_be read_rules) simp

lemma DecodeMessage_strict:
  assumes "DecodeMessage r = ((m, None), r')"
  shows "length (rbuf r') < length (rbuf r)"
proof -
  have "strict_read read_message"
    unfolding read_message_def
    by (intro strict_read_bind readString_strict read_rules) (simp_all add: readString_def, (intro read_rules)+)
  with assms show ?thesis unfolding DecodeMessage_success strict_read_def by blast
qed

function runMonitor :: "panda \<Rightarrow> reader \<Rightarrow> (Message \<times> string \<times> gotime \<times> gotime) list \<times> go_error" where
  "runMonitor pa r =
     (case DecodeMessage r of
        ((m, Some e), r') \<Rightarrow> ([], e)
      | ((m, None), r') \<Rightarrow> let (rows, e) = runMonitor pa r' in (monitor_row pa m # rows, e))"
  by pat_completeness auto
termination
  by (relation "measure (\<lambda>(pa, r). length (rbuf r))") (auto dest!: DecodeMessage_strict [OF sym])

declare runMonitor.simps [simp del]

section \<open>Setting up the distribution server\<close>

datatype service = BrowseService string | MonitorService "string list" | ProductsService string string int | ArchivesService string

text \<open>The constructors \<^verbatim>\<open>distrib.Browse\<close>, \<^verbatim>\<open>distrib.Fetch\<close> and \<^verbatim>\<open>distrib.Download\<close> check their directory.\<close>

definition checked_dir :: "fs \<Rightarrow> string \<Rightarrow> go_error option" where
  "checked_dir f d =
     (case Stat f d of None \<Rightarrow> Some ENOENT | Some n \<Rightarrow> if n \<noteq> Dir then Some (Errorf ''not a directory'') else None)"

definition Browse :: "fs \<Rightarrow> string \<Rightarrow> service outcome" where
  "Browse f d = (case checked_dir f d of Some e \<Rightarrow> Inl e | None \<Rightarrow> Inr (BrowseService d))"

definition Fetch :: "fs \<Rightarrow> string \<Rightarrow> string \<Rightarrow> int \<Rightarrow> service outcome" where
  "Fetch f r d n = (case checked_dir f r of Some e \<Rightarrow> Inl e | None \<Rightarrow> Inr (ProductsService r d n))"

definition Download :: "fs \<Rightarrow> string \<Rightarrow> service outcome" where
  "Download f d = (case checked_dir f d of Some e \<Rightarrow> Inl e | None \<Rightarrow> Inr (ArchivesService d))"

text \<open>Listening to the groups in turn; the first that cannot be resolved or joined is the error.\<close>

fun Monitor :: "(string \<Rightarrow> go_error option) \<Rightarrow> string list \<Rightarrow> go_error option" where
  "Monitor listen [] = None"
| "Monitor listen (g # gs) = (case listen g of Some e \<Rightarrow> Some e | None \<Rightarrow> Monitor listen gs)"

record distrib_config =
  dc_Rate :: int
  dc_Rawdir :: string
  dc_Datadir :: string
  dc_Groups :: "string list"

definition register :: "string \<Rightarrow> service outcome \<Rightarrow> (string \<times> service) list" where
  "register pattern x = (case x of Inl e \<Rightarrow> [] | Inr h \<Rightarrow> [(pattern, h)])"

text \<open>The handlers registered: a service that cannot be set up is logged and left out.\<close>

definition runDistrib :: "fs \<Rightarrow> (string \<Rightarrow> go_error option) \<Rightarrow> distrib_config \<Rightarrow> (string \<times> service) list outcome" where
  "runDistrib f listen c =
     (case Stat f (dc_Rawdir c) of
        None \<Rightarrow> Inl ENOENT
      | Some n \<Rightarrow>
          if n \<noteq> Dir then Inl (Errorf ''%s not a directory'')
          else Inr (register ''/browse/'' (Browse f (dc_Rawdir c)) @
                    register ''/monitor/'' (case Monitor listen (dc_Groups c) of Some e \<Rightarrow> Inl e | None \<Rightarrow> Inr (MonitorService (dc_Groups c))) @
                    register ''/products/'' (Fetch f (dc_Rawdir c) (dc_Datadir c) (dc_Rate c)) @
                    register ''/archives/'' (Download f (dc_Rawdir c))))"

section \<open>MMA files\<close>

definition FCC :: bytes where "FCC = bytes_of_string ''MMA ''"

text \<open>January 6, 1980, the origin of GPS time.\<close>

definition GPS :: gotime where "GPS = time_Unix 0 315964800"

definition mma_readPreamble :: "gotime rd" where
  "mma_readPreamble r =
     (case ReadFull (length FCC) r of
        (Inl e, r) \<Rightarrow> (Inl e, r)
      | (Inr magic, r) \<Rightarrow>
          if magic \<noteq> FCC then (Inl (Errorf ''invalid FCC (expected: %x, got: %x)''), r)
          else
            let (sq :: uint32, r) = read_into 0 read_u32 r;
                (when :: uint64, r) = read_into 0 read_u64 r
            in (Inr (GPS\<lparr>t_ns := t_ns GPS + sint when\<rparr>), r))"

definition mma_values :: "string list rd" where
  "mma_values = read_fields 32 read_u16 (\<lambda>x. Itoa (uint x))"

lemma mma_values_strict: "strict_read mma_values"
  unfolding mma_values_def by (intro strict_read_fields strict_read_be read_rules) simp_all

text \<open>
  The rows given to the CSV writer and the error of the loop; an end of file between two values is no
  error, whatever the column.
\<close>

function mma_loop :: "string \<Rightarrow> int \<Rightarrow> reader \<Rightarrow> row list \<Rightarrow> row list \<times> go_error option" where
  "mma_loop t i r acc =
     (case mma_values r of
        (Inl e, r') \<Rightarrow> (acc, if e = EOF then None else Some e)
      | (Inr vs, r') \<Rightarrow> mma_loop t (i + 1) r' (acc @ [[t, Itoa (i mod 16), ''16''] @ vs]))"
  by pat_completeness auto
termination
  by (relation "measure (\<lambda>(t, i, r, acc). length (rbuf r))")
    (use mma_values_strict [unfolded strict_read_def] in \<open>auto, metis\<close>)

declare mma_loop.simps [simp del]

text \<open>What the file has when the function returns: without an error the writer is flushed.\<close>

definition writeScience :: "(gotime \<Rightarrow> string) \<Rightarrow> reader \<Rightarrow> gotime \<Rightarrow> bytes \<times> go_error option" where
  "writeScience rfc3339 r t =
     (case mma_loop (rfc3339 t) 1 r [] of
        (rows, None) \<Rightarrow> (csv_text rows, None)
      | (rows, Some e) \<Rightarrow> (unflushed (csv_text rows), Some e))"

text \<open>\<^verbatim>\<open>filepath.Split\<close>: the directory keeps its last slash.\<close>

definition Split :: "string \<Rightarrow> string \<times> string" where
  "Split p = (rev (dropWhile (\<lambda>c. c \<noteq> CHR ''/'') (rev p)), rev (takeWhile (\<lambda>c. c \<noteq> CHR ''/'') (rev p)))"

definition process :: "(gotime \<Rightarrow> string) \<Rightarrow> string \<Rightarrow> string \<Rightarrow> fs \<Rightarrow> go_error option \<times> fs" where
  "process rfc3339 name datadir f =
     (case ReadFile f name of
        None \<Rightarrow> (Some ENOENT, f)
      | Some bs \<Rightarrow>
          (case mma_readPreamble (source bs EOF) of
             (Inl e, r) \<Rightarrow> (Some e, f)
           | (Inr when, r) \<Rightarrow>
               let dir = Join [datadir, fst (Split name)] in
               (case MkdirAll dir f of
                  (made, f) \<Rightarrow>
                    if (case made of None \<Rightarrow> False | Some e \<Rightarrow> \<not> IsExist e) then (made, f)
                    else
                      let (text, err) = writeScience rfc3339 r when in
                      (case WriteFile (Join [dir, snd (Split name)]) text f of
                         (Some e, f) \<Rightarrow> (Some e, f)
                       | (None, f) \<Rightarrow> (err, f)))))"

section \<open>Properties of dispatch\<close>

definition sized_frame :: "bytes \<Rightarrow> bytes" where
  "sized_frame bs = be32 (of_nat (length bs)) @ bs"

lemma scanPackets_sized:
  assumes "length bs < 2 ^ 32"
  shows "scanPackets (sized_frame bs @ rest) False = Token (length (sized_frame bs)) bs"
  using unat_of_nat_small(2) [OF assms] by (simp add: scanPackets_def sized_frame_def)

lemma scanPackets_short:
  assumes "length bs < 2 ^ 32" and "sized_frame bs = buf @ ys" and "ys \<noteq> []"
  shows "scanPackets buf False = Need"
proof (cases "length buf < 4")
  case True
  then show ?thesis by (simp add: scanPackets_def)
next
  case False
  then have "take 4 buf = take 4 (buf @ ys)" by simp
  also have "\<dots> = be32 (of_nat (length bs))" unfolding assms(2) [symmetric] by (simp add: sized_frame_def)
  finally have tk: "take 4 buf = be32 (of_nat (length bs))" .
  have "length (sized_frame bs) = length buf + length ys" by (simp only: assms(2) length_append)
  then have "4 + length bs = length buf + length ys" by (simp add: sized_frame_def)
  moreover have "0 < length ys" using assms(3) by simp
  ultimately have "length buf < length bs + 4" by linarith
  then show ?thesis using False unat_of_nat_small(2) [OF assms(1)] by (simp add: scanPackets_def tk)
qed

interpretation sized: framing scanPackets sized_frame "\<lambda>bs. bs" "\<lambda>bs. length bs < 2 ^ 32"
proof
  fix x buf ys rest :: bytes
  assume x: "length x < 2 ^ 32"
  show "sized_frame x \<noteq> []"
    by (metis append_is_Nil_conv length_put_be list.size(3) sized_frame_def zero_neq_numeral)
  show "scanPackets (sized_frame x @ rest) False = Token (length (sized_frame x)) x" by (rule scanPackets_sized [OF x])
  show "sized_frame x = buf @ ys \<Longrightarrow> ys \<noteq> [] \<Longrightarrow> scanPackets buf False = Need" by (rule scanPackets_short [OF x])
next
  show "scanPackets [] True = Final 0 []" by (simp add: scanPackets_def)
qed

text \<open>
  C25. The dispatch command reads what the record storage writes: a file of hadock records is cut into
  exactly these records without their lengths, whatever the sizes of the reads, followed by one empty
  token at the end of the file, and the command succeeds, as long as every record fits the buffer of 8 MB.
\<close>

theorem dispatch_reads_records:
  assumes "map (\<lambda>(i, p). hadock_record i p) ps = map Inr ws" and "\<forall>w\<in>set ws. length w \<le> 8 * 2 ^ 20"
    and "concat chunks = concat ws"
  shows "scan scanPackets (8 * 2 ^ 20) [] chunks = (map (drop 4) ws @ [[]], ScanDone) \<and>
    runDispatch [WalkFile (Inr chunks)] = None"
proof -
  have rec: "w = sized_frame (drop 4 w)" if "w \<in> set ws" for w
  proof -
    from that have "Inr w \<in> set (map (\<lambda>(i, p). hadock_record i p) ps)" unfolding assms(1) by simp
    then obtain i p where ip: "hadock_record i p = Inr w" by auto
    then obtain b where "encodeRawPacket p = Inr b" by (auto simp: hadock_record_def split: sum.splits)
    with ip obtain fixd where "w = be32 (of_nat (length (fixd @ b))) @ fixd @ b" by (rule hadock_record_sized)
    then show ?thesis by (simp add: sized_frame_def)
  qed
  then have "map sized_frame (map (drop 4) ws) = ws" by (simp add: map_idI)
  then have "scan scanPackets (8 * 2 ^ 20) [] chunks = (map (\<lambda>bs. bs) (map (drop 4) ws) @ [[]], ScanDone)"
    using assms(2,3) rec by (intro sized.scan_frames) (auto simp: less_diff_conv intro: order.strict_trans1)
  then show ?thesis by (simp add: scan_err_def)
qed

theorem dispatch_reads_records_witness:
  "\<exists>w. hadock_record 255 sample_table = Inr w \<and> runDispatch [WalkFile (Inr [w, w])] = None"
proof -
  obtain b where b: "encodeRawPacket sample_table = Inr b" "length b = 19"
    by (simp add: encodeRawPacket_def sample_table_def raw_time_def sample_sdh_def)
  have "ParseUint16_8 (hr_Origin sample_table) = Inr 0x36" by code_simp
  with b obtain w where w: "hadock_record 255 sample_table = Inr w" by (simp add: hadock_record_def)
  then obtain fixd where "length fixd = 44" "w = be32 (of_nat (length (fixd @ b))) @ fixd @ b"
    using b(1) by (rule hadock_record_sized)
  then have "length w \<le> 8 * 2 ^ 20" using b(2) by simp
  with w dispatch_reads_records [of "[(255, sample_table), (255, sample_table)]" "[w, w]" "[w, w]"] show ?thesis by auto
qed

section \<open>Properties of the monitor command\<close>

lemma runMonitor_message:
  "fits_message m \<Longrightarrow> runMonitor pa (source (encode_message m @ rest) e) =
     (monitor_row pa m # fst (runMonitor pa (source rest e)), snd (runMonitor pa (source rest e)))"
proof -
  assume "fits_message m"
  then have "DecodeMessage (source (encode_message m @ rest) e) = ((m, None), source rest e)"
    by (simp add: DecodeMessage_success notification.get_put)
  then show ?thesis by (subst runMonitor.simps) (simp add: case_prod_beta)
qed

lemma runMonitor_end: "runMonitor pa (source [] e) = ([], e)"
  by (subst runMonitor.simps) (simp add: DecodeMessage_def readString_def read_be_def ReadFull_def rd_bind_def)

text \<open>The command prints every notification of the groups, and ends with the error of the sockets.\<close>

lemma runMonitor_prints:
  "\<forall>m\<in>set ms. fits_message m \<Longrightarrow>
     runMonitor pa (source (concat (map encode_message ms)) e) = (map (monitor_row pa) ms, e)"
  by (induction ms) (simp_all add: runMonitor_message runMonitor_end)

section \<open>Properties of the MMA converter\<close>

lemma mma_loop_row:
  assumes "length xs = 32"
  shows "mma_loop t i (source (concat (map be16 xs) @ rest) e) acc =
    mma_loop t (i + 1) (source rest e) (acc @ [[t, Itoa (i mod 16), ''16''] @ map (\<lambda>x. Itoa (uint x)) xs])"
  using read_fields_put [of read_u16 be16 xs "\<lambda>x. Itoa (uint x)" rest e, OF u16_be.get_put [OF TrueI]] assms
  by (subst mma_loop.simps) (simp add: mma_values_def)

lemma read_fields_eof:
  "length xs < k \<Longrightarrow> fst (read_fields k read_u16 f (source (concat (map be16 (xs :: uint16 list))) EOF)) = Inl EOF"
proof (induction xs arbitrary: k)
  case Nil
  then obtain j where "k = Suc j" by (cases k) auto
  then show ?case by (simp add: read_be_def ReadFull_def rd_bind_def)
next
  case (Cons x xs)
  then obtain j where j: "k = Suc j" "length xs < j" by (cases k) auto
  with Cons.IH [of j] show ?case
    by (auto simp: u16_be.get_put [OF TrueI] rd_bind_def split: prod.splits sum.splits)
qed

lemma mma_loop_end:
  assumes "length xs < 32"
  shows "mma_loop t i (source (concat (map be16 xs)) EOF) acc = (acc, None)"
  using read_fields_eof [OF assms, of "\<lambda>x. Itoa (uint x)"]
  by (subst mma_loop.simps) (auto simp: mma_values_def split: prod.splits)

lemma mma_loop_rows:
  assumes "\<forall>xs\<in>set rows. length xs = 32" and "length ys < 32"
  shows "mma_loop t i (source (concat (map (\<lambda>xs. concat (map be16 xs)) rows) @ concat (map be16 ys)) EOF) acc =
    (acc @ map (\<lambda>k. [t, Itoa ((i + int k) mod 16), ''16''] @ map (\<lambda>x. Itoa (uint x)) (rows ! k)) [0..<length rows], None)"
  using assms(1)
proof (induction rows arbitrary: i acc)
  case Nil
  show ?case using mma_loop_end [OF assms(2)] by simp
next
  case (Cons xs rows)
  have up: "[0..<Suc (length rows)] = 0 # map Suc [0..<length rows]"
    by (simp add: upt_conv_Cons map_Suc_upt del: upt_Suc)
  have "length xs = 32" using Cons.prems by simp
  with Cons show ?case by (simp add: mma_loop_row up add.assoc comp_def del: upt_Suc)
qed

text \<open>
  The converter of MMA files writes one row per 32 values, numbered modulo 16 from one, with a
  fixed count of 16; values that do not fill a last row are dropped without an error.
\<close>

theorem mma_rows:
  assumes "\<forall>xs\<in>set rows. length xs = 32" and "length ys < 32"
  shows "writeScience rfc3339 (source (concat (map (\<lambda>xs. concat (map be16 xs)) rows) @ concat (map be16 ys)) EOF) t =
    (csv_text (map (\<lambda>k. [rfc3339 t, Itoa ((1 + int k) mod 16), ''16''] @ map (\<lambda>x. Itoa (uint x)) (rows ! k))
       [0..<length rows]), None)"
  by (simp add: writeScience_def mma_loop_rows [OF assms])

theorem mma_rows_witness:
  "writeScience (\<lambda>_. ''t'') (source (concat (map (\<lambda>xs. concat (map be16 xs)) [replicate 32 7]) @ concat (map be16 [8, 9])) EOF) GPS =
    (csv_text (map (\<lambda>k. [''t'', Itoa ((1 + int k) mod 16), ''16''] @ map (\<lambda>x. Itoa (uint x)) ([replicate 32 (7 :: uint16)] ! k))
       [0..<length [replicate 32 (7 :: uint16)]]), None)"
  by (rule mma_rows) simp_all

section \<open>The distribution server\<close>

text \<open>Once the raw directory is checked, the three services on it are always registered; only the monitor may be missing.\<close>

lemma runDistrib_services:
  assumes "Stat f (dc_Rawdir c) = Some Dir"
  shows "\<exists>hs. runDistrib f listen c = Inr hs \<and> {''/browse/'', ''/products/'', ''/archives/''} \<subseteq> fst ` set hs \<and>
    (''/monitor/'' \<in> fst ` set hs \<longleftrightarrow> Monitor listen (dc_Groups c) = None)"
  using assms by (auto simp: runDistrib_def register_def Browse_def Fetch_def Download_def checked_dir_def split: option.splits)

section \<open>Properties of the walk\<close>

text \<open>A file of HRDP records that fit the buffer of 8 MB, cut into chunks by the reads.\<close>

definition hrdp_chunks :: "nat \<Rightarrow> nat \<Rightarrow> bytes list \<Rightarrow> (bytes \<times> bytes) list \<Rightarrow> bool" where
  "hrdp_chunks hl sl chunks recs \<longleftrightarrow>
     concat chunks = hrdp_file recs \<and> list_all (\<lambda>x. record_ok hl sl (8 * 2 ^ 20) x \<and> snd x \<noteq> []) recs"

lemma walk_files:
  "list_all2 (hrdp_chunks hl sl) files recss \<Longrightarrow>
     walk hl sl (map (\<lambda>c. WalkFile (Inr c)) files) = (concat (map (\<lambda>recs. map snd recs @ [[]]) recss), None)"
proof (induction files recss rule: list_all2_induct)
  case (Cons chunks files recs recss)
  then have "scan (scanVMUPackets hl sl) (8 * 2 ^ 20) [] chunks = (map snd recs @ [[]], ScanDone)"
    by (intro scan_records) (auto simp: hrdp_chunks_def list_all_iff)
  with Cons.IH show ?case by (simp add: scan_err_def)
qed simp

lemma walk_tokens:
  assumes "list_all2 (hrdp_chunks hl sl) files recss"
  shows "filter (\<lambda>bs. bs \<noteq> []) (walkPaths hl sl [map (\<lambda>c. WalkFile (Inr c)) files]) = map snd (concat recss)"
proof -
  have "filter (\<lambda>bs. bs \<noteq> []) (map snd recs) = map snd recs" if "recs \<in> set recss" for recs
  proof -
    from that assms obtain chunks where "hrdp_chunks hl sl chunks recs"
      by (auto simp: list_all2_conv_all_nth in_set_conv_nth)
    then show ?thesis by (auto simp: hrdp_chunks_def list_all_iff filter_id_conv)
  qed
  then show ?thesis
    by (simp add: walkPaths_def walk_files [OF assms] filter_concat map_concat comp_def cong: map_cong)
qed

end
