(* ===== verification/Commands.thy ===== *)
theory Commands
  imports Tools Go_Chan
begin

text \<open>
  The commands \<^verbatim>\<open>monitor\<close>, \<^verbatim>\<open>dispatch\<close>, \<^verbatim>\<open>distrib\<close> and \<^verbatim>\<open>replay\<close> of \<^verbatim>\<open>src/cmd/hadock\<close> and the program mmaconv from their arguments on: the
  goroutines that copy the datagrams of the multicast groups into one pipe, and the set-up with its early returns.
  The command line, the decoder of the configuration, the sockets and the HTTP server are parameters.
\<close>

section \<open>Copying the groups into a pipe\<close>

text \<open>
  One call of \<^verbatim>\<open>io.Copy\<close> from a socket: the datagrams it copied and how it ended. Only an error of the network
  that is temporary or a time-out makes the goroutine go on.
\<close>

datatype copy_end = CopyEOF | CopyOther | CopyNet bool

fun copy_group :: "(bytes list \<times> copy_end) list \<Rightarrow> bytes list" where
  "copy_group [] = []"
| "copy_group ((ds, e) # cs) = ds @ (case e of CopyNet transient \<Rightarrow> if transient then copy_group cs else [] | _ \<Rightarrow> [])"

text \<open>
  The set-up: the groups are resolved and joined in turn. The result is the list of the groups that are read when there
  was no error.
\<close>

fun readMessages :: "(string \<Rightarrow> 'a outcome) \<Rightarrow> ('a \<Rightarrow> 'c outcome) \<Rightarrow> string list \<Rightarrow> 'c list outcome" where
  "readMessages resolve listen [] = Inr []"
| "readMessages resolve listen (g # gs) =
     (case resolve g of
        Inl e \<Rightarrow> Inl e
      | Inr a \<Rightarrow>
          (case listen a of
             Inl e \<Rightarrow> Inl e
           | Inr c \<Rightarrow> (case readMessages resolve listen gs of Inl e \<Rightarrow> Inl e | Inr cs \<Rightarrow> Inr (c # cs))))"

text \<open>A write to the pipe is one piece for its reader, so that the reader gets an interleaving of the datagrams.\<close>

definition piped :: "(bytes list \<times> copy_end) list list \<Rightarrow> bytes \<Rightarrow> bool" where
  "piped copies bs \<longleftrightarrow> (\<exists>ds. interleaves (map copy_group copies) ds \<and> bs = concat ds)"

section \<open>Set-up of the commands\<close>

record dispatch_config =
  dp_In :: string
  dp_Out :: string

definition runDispatch_cmd ::
  "(string list \<Rightarrow> string outcome) \<Rightarrow> (bytes \<Rightarrow> dispatch_config outcome) \<Rightarrow> (string \<Rightarrow> walk_file list) \<Rightarrow> string list \<Rightarrow> fs \<Rightarrow>
   go_error option" where
  "runDispatch_cmd flag toml walk_dir args f =
     (case flag args of
        Inl e \<Rightarrow> Some e
      | Inr name \<Rightarrow>
          (case read_config toml name f of Inl e \<Rightarrow> Some e | Inr c \<Rightarrow> runDispatch (walk_dir (dp_In c))))"

definition runMonitor_cmd ::
  "panda \<Rightarrow> (string list \<Rightarrow> string list outcome) \<Rightarrow> (string \<Rightarrow> 'a outcome) \<Rightarrow> ('a \<Rightarrow> 'c outcome) \<Rightarrow> ('c list \<Rightarrow> reader) \<Rightarrow>
   string list \<Rightarrow> (Message \<times> string \<times> gotime \<times> gotime) list \<times> go_error" where
  "runMonitor_cmd pa flag resolve listen pipe args =
     (case flag args of
        Inl e \<Rightarrow> ([], e)
      | Inr gs \<Rightarrow> (case readMessages resolve listen gs of Inl e \<Rightarrow> ([], e) | Inr cs \<Rightarrow> runMonitor pa (pipe cs)))"

text \<open>The server as it is started: address, services, the headers of the cross-origin requests, and whether requests are logged.\<close>

record http_server =
  hs_Address :: string
  hs_services :: "(string \<times> service) list"
  hs_allowed :: "string list"
  hs_exposed :: "string list"
  hs_logging :: bool

definition runDistrib_cmd ::
  "(string list \<Rightarrow> (bool \<times> string) outcome) \<Rightarrow> (bytes \<Rightarrow> (string \<times> distrib_config) outcome) \<Rightarrow>
   (string \<Rightarrow> go_error option) \<Rightarrow> string list \<Rightarrow> fs \<Rightarrow> http_server outcome" where
  "runDistrib_cmd flag toml listen args f =
     (case flag args of
        Inl e \<Rightarrow> Inl e
      | Inr (quiet, name) \<Rightarrow>
          (case read_config toml name f of
             Inl e \<Rightarrow> Inl e
           | Inr (addr, c) \<Rightarrow>
               (case runDistrib f listen c of
                  Inl e \<Rightarrow> Inl e
                | Inr hs \<Rightarrow>
                    Inr \<lparr>hs_Address = addr, hs_services = hs, hs_allowed = [''if-modified-since''],
                         hs_exposed = [''last-modified''], hs_logging = \<not> quiet\<rparr>)))"

section \<open>Replay\<close>

datatype replay_flag = ReplaySize int | ReplayMode int | ReplayCount int | ReplayVersion int

record replay_options =
  ro_block :: int
  ro_mode :: int
  ro_num :: int
  ro_vmu :: int

definition replay_defaults :: "panda \<Rightarrow> replay_options" where
  "replay_defaults pa = \<lparr>ro_block = 0, ro_mode = uint OPS, ro_num = 0, ro_vmu = VMUProtocol2 pa\<rparr>"

definition replay_flag_Set :: "replay_flag \<Rightarrow> replay_options \<Rightarrow> replay_options outcome" where
  "replay_flag_Set v ro =
     Inr (case v of
        ReplaySize n \<Rightarrow> ro\<lparr>ro_block := n\<rparr> | ReplayMode n \<Rightarrow> ro\<lparr>ro_mode := n\<rparr>
      | ReplayCount n \<Rightarrow> ro\<lparr>ro_num := n\<rparr> | ReplayVersion n \<Rightarrow> ro\<lparr>ro_vmu := n\<rparr>)"

text \<open>What the loop of the command receives: the queue until it is closed, or until a signal that comes after \<open>k\<close> of its events.\<close>

definition replay_events :: "nat option \<Rightarrow> bytes list \<Rightarrow> event list" where
  "replay_events sig bss =
     (let evs = map Data bss @ [QueueClosed] in case sig of None \<Rightarrow> evs | Some k \<Rightarrow> take k evs @ [Signal])"

text \<open>
  The rate of the connection only delays its writes and is left out. Without any argument the address is empty; the slice of the
  arguments behind it panics if it could be dialled.
\<close>

definition runReplay_cmd ::
  "panda \<Rightarrow> (bytes \<Rightarrow> uint16) \<Rightarrow> 'w conn \<Rightarrow> (go_error \<Rightarrow> bool) \<Rightarrow> (string \<Rightarrow> 'w outcome) \<Rightarrow> nat \<Rightarrow> nat \<Rightarrow> (string \<Rightarrow> walk_file list) \<Rightarrow>
   nat option \<Rightarrow> replay_flag list \<Rightarrow> string list \<Rightarrow> (replay_stats \<times> replay \<times> 'w) outcome" where
  "runReplay_cmd pa sum1071 conn fatal dial hl sl walk_dir sig vs args =
     (case parse_flags replay_flag_Set vs (replay_defaults pa) of
        Inl e \<Rightarrow> Inl e
      | Inr ro \<Rightarrow>
          (case dial (case args of [] \<Rightarrow> '''' | a # _ \<Rightarrow> a) of
             Inl e \<Rightarrow> Inl e
           | Inr w \<Rightarrow>
               (case args of
                  [] \<Rightarrow> Inl (GoPanic ''slice bounds out of range'')
                | _ # ps \<Rightarrow>
                    Inr (replay_loop sum1071 conn fatal (ro_num ro) 0
                          (replay_events sig (walkPaths hl sl (map walk_dir ps))) \<lparr>st_count = 0, st_size = 0\<rparr>
                          (Replay (ro_block ro) (ro_vmu ro) (ro_mode ro)) w))))"

section \<open>Conversion of accelerometer files\<close>

text \<open>The lines that mmaconv logs, and the file system; \<open>datadir\<close> is the directory of temporary files unless a flag names another.\<close>

fun mmaconv_main :: "(gotime \<Rightarrow> string) \<Rightarrow> string \<Rightarrow> string list \<Rightarrow> fs \<Rightarrow> (string \<times> go_error) list \<times> fs" where
  "mmaconv_main rfc3339 datadir [] f = ([], f)"
| "mmaconv_main rfc3339 datadir (p # ps) f =
     (case process rfc3339 p datadir f of
        (err, f) \<Rightarrow>
          let (ls, f) = mmaconv_main rfc3339 datadir ps f in ((case err of None \<Rightarrow> [] | Some e \<Rightarrow> [(p, e)]) @ ls, f))"

section \<open>The table of commands\<close>

datatype handler = RunReplay | RunListen | RunDistrib | RunMonitor | RunDispatch

record command =
  cm_Usage :: string
  cm_Short :: string
  cm_Run :: handler

definition commands :: "command list" where
  "commands =
     [\<lparr>cm_Usage = ''replay [-r] [-s] [-m] [-t] <host:port> <archive...>'',
       cm_Short = ''send VMU packets throught the network from a HRDP archive'', cm_Run = RunReplay\<rparr>,
      \<lparr>cm_Usage = ''listen <hdk.toml>'', cm_Short = ''store packets in archive'', cm_Run = RunListen\<rparr>,
      \<lparr>cm_Usage = ''distrib <hdk.toml>'', cm_Short = ''distribute files stored in archive'', cm_Run = RunDistrib\<rparr>,
      \<lparr>cm_Usage = ''monitor <group...>'', cm_Short = ''monitor hadock activities'', cm_Run = RunMonitor\<rparr>,
      \<lparr>cm_Usage = ''dispatch <directory>'', cm_Short = '''', cm_Run = RunDispatch\<rparr>]"

section \<open>Properties\<close>

text \<open>
  No two commands begin with the same word, and each has its own handler: whichever of them package cli
  looks up by the first word of its usage, there is exactly one.
\<close>

lemma commands_distinct:
  "distinct (map (takeWhile (\<lambda>c. c \<noteq> CHR '' '') \<circ> cm_Usage) commands)" "distinct (map cm_Run commands)"
  by (simp_all add: commands_def)

text \<open>A replay that is not interrupted works off its whole queue.\<close>

lemma runReplay_cmd_loop:
  assumes "runReplay_cmd pa sum1071 conn fatal dial hl sl walk_dir None vs (a # ps) = Inr (st, r, w')"
  shows "\<exists>ro w. parse_flags replay_flag_Set vs (replay_defaults pa) = Inr ro \<and> dial a = Inr w \<and>
    replay_loop sum1071 conn fatal (ro_num ro) 0 (map Data (walkPaths hl sl (map walk_dir ps)) @ [QueueClosed])
      \<lparr>st_count = 0, st_size = 0\<rparr> (Replay (ro_block ro) (ro_vmu ro) (ro_mode ro)) w = (st, r, w')"
  using assms by (auto simp: runReplay_cmd_def replay_events_def split: sum.splits)

lemma runReplay_cmd_interrupted:
  assumes "dial a = Inr w"
  shows "runReplay_cmd pa sum1071 conn fatal dial hl sl walk_dir (Some 0) [] (a # ps) =
    Inr (\<lparr>st_count = 0, st_size = 0\<rparr>, Replay 0 (VMUProtocol2 pa) 255, w)"
  using assms by (simp add: runReplay_cmd_def replay_events_def replay_defaults_def OPS_def)

text \<open>A file that cannot be converted does not keep mmaconv from the next ones: there is one line at most for every file.\<close>

lemma mmaconv_main_lines: "subseq (map fst (fst (mmaconv_main rfc3339 datadir ps f))) ps"
  by (induction ps arbitrary: f) (auto simp: case_prod_beta split: option.splits)

lemma copy_group_transient:
  "\<forall>x\<in>set cs. snd x = CopyNet True \<Longrightarrow> copy_group (cs @ [(ds, e)]) = concat (map fst cs) @ copy_group [(ds, e)]"
  by (induction cs rule: copy_group.induct) (auto split: copy_end.splits)

lemma readMessages_joins:
  "readMessages resolve listen gs = Inr cs \<longleftrightarrow>
     list_all2 (\<lambda>g c. \<exists>a. resolve g = Inr a \<and> listen a = Inr c) gs cs"
proof (induction gs arbitrary: cs)
  case (Cons g gs)
  show ?case by (cases cs) (auto simp: Cons [symmetric] split: sum.splits)
qed auto

lemma runMonitor_interleaved:
  assumes "interleaves (map (map encode_message) mss) ds" and "\<forall>ms\<in>set mss. \<forall>m\<in>set ms. fits_message m"
  shows "\<exists>ms. interleaves mss ms \<and> runMonitor pa (source (concat ds) e) = (map (monitor_row pa) ms, e)"
  using assms
proof (induction "map (map encode_message) mss" ds arbitrary: mss rule: interleaves.induct)
  case finished
  then have "\<forall>ms\<in>set mss. ms = []" by simp
  then show ?case using interleaves.finished [of mss] by (auto simp: runMonitor_end)
next
  case (sends i x xs ys)
  then obtain m ms where m: "mss ! i = m # ms" "x = encode_message m" "xs = map encode_message ms" by auto
  have i: "i < length mss" using sends(1) by simp
  have "(map (map encode_message) mss)[i := xs] = map (map encode_message) (mss[i := ms])" using m by (simp add: map_update)
  moreover have fits: "\<forall>ns\<in>set (mss[i := ms]). \<forall>m\<in>set ns. fits_message m" "fits_message m"
    using sends.prems nth_mem [OF i] m(1) by (auto dest!: set_update_subset_insert [THEN subsetD])
  ultimately obtain ns where ns: "interleaves (mss[i := ms]) ns" "runMonitor pa (source (concat ys) e) = (map (monitor_row pa) ns, e)"
    using sends(4) [of "mss[i := ms]"] by auto
  have "interleaves mss (m # ns)" by (rule interleaves.sends [OF i m(1) ns(1)])
  moreover have "runMonitor pa (source (concat (x # ys)) e) = (map (monitor_row pa) (m # ns), e)"
    using runMonitor_message [OF fits(2)] ns(2) m(2) by simp
  ultimately show ?case by blast
qed

text \<open>
  The monitor prints every notification of every group exactly once and those of a group in order, whatever the order
  in which the goroutines write to the pipe and however often a socket failed for a while; then it ends with the error of the pipe.
\<close>

theorem monitor_prints_all:
  assumes "map copy_group copies = map (map encode_message) mss" and "\<forall>ms\<in>set mss. \<forall>m\<in>set ms. fits_message m"
    and "piped copies bs"
  shows "\<exists>ms. runMonitor pa (source bs e) = (map (monitor_row pa) ms, e) \<and>
    mset ms = (\<Sum>xs\<leftarrow>mss. mset xs) \<and> (\<forall>xs\<in>set mss. subseq xs ms)"
  using runMonitor_interleaved [OF _ assms(2)] assms(1,3) interleaves_mset interleaves_subseq unfolding piped_def by metis

theorem monitor_prints_all_witness:
  "\<exists>bs ms. piped [[([], CopyNet True), ([encode_message sample_message], CopyEOF)]] bs \<and>
     runMonitor sample_panda (source bs EOF) = (map (monitor_row sample_panda) ms, EOF) \<and> mset ms = {#sample_message#}"
proof -
  let ?copies = "[[([], CopyNet True), ([encode_message sample_message], CopyEOF)]]"
  have "interleaves [[encode_message sample_message]] [encode_message sample_message]"
    using interleaves.sends [of 0 "[[encode_message sample_message]]" "encode_message sample_message" "[]" "[]"]
      interleaves.finished [of "[[]]"] by simp
  then have piped: "piped ?copies (encode_message sample_message)" by (auto simp: piped_def intro!: exI [of _ "[encode_message sample_message]"])
  have fits: "fits_message sample_message" by (simp add: fits_message_def fits_string_def sample_message_def new_Message_def)
  from monitor_prints_all [of ?copies "[[sample_message]]" "encode_message sample_message" sample_panda EOF] piped fits
  obtain ms where "runMonitor sample_panda (source (encode_message sample_message) EOF) = (map (monitor_row sample_panda) ms, EOF)"
    "mset ms = {#sample_message#}" by auto
  with piped show ?thesis by blast
qed

text \<open>
  The server is only started when its raw directory exists, and then it has the three services that work on
  files; it lacks the monitor when a group cannot be joined.
\<close>

lemma runDistrib_cmd_starts:
  assumes "runDistrib_cmd flag toml listen args f = Inr hs"
  shows "\<exists>quiet name c. flag args = Inr (quiet, name) \<and> read_config toml name f = Inr (hs_Address hs, c) \<and>
    Stat f (dc_Rawdir c) = Some Dir \<and> {''/browse/'', ''/products/'', ''/archives/''} \<subseteq> fst ` set (hs_services hs) \<and>
    (''/monitor/'' \<in> fst ` set (hs_services hs) \<longleftrightarrow> Monitor listen (dc_Groups c) = None) \<and> (hs_logging hs \<longleftrightarrow> \<not> quiet)"
proof -
  from assms obtain quiet name addr c srv where run: "flag args = Inr (quiet, name)" "read_config toml name f = Inr (addr, c)"
    "runDistrib f listen c = Inr srv" "hs = \<lparr>hs_Address = addr, hs_services = srv, hs_allowed = [''if-modified-since''],
       hs_exposed = [''last-modified''], hs_logging = \<not> quiet\<rparr>"
    by (auto simp: runDistrib_cmd_def split: sum.splits prod.splits)
  moreover from run(3) have "Stat f (dc_Rawdir c) = Some Dir"
    by (auto simp: runDistrib_def split: option.splits if_splits)
  moreover note runDistrib_services [OF this, of listen]
  ultimately show ?thesis by (intro exI [of _ quiet] exI [of _ name] exI [of _ c]) auto
qed

end
