(* ===== verification/Plugin_Setup.thy ===== *)
theory Plugin_Setup
  imports Plugins
begin

text \<open>
  The set-up of the modules of \<^verbatim>\<open>src/plugins\<close> from their configuration files, and the monitor of gaps with its two
  tickers, whose events come in any order. The decoder of the configuration is a parameter.
\<close>

section \<open>Monitor\<close>

record mon_config =
  mc_Datadir :: string
  mc_Every :: uint64
  mc_Rotate :: uint64
  mc_Aggregate :: bool
  mc_Channels :: "Channel list"

text \<open>
  The monitor, with the arguments of the goroutine it starts. The lines of its log files are part of its own
  state; in the file system the new file is empty.
\<close>

definition mon_setup ::
  "(bytes \<Rightarrow> mon_config outcome) \<Rightarrow> (gotime \<Rightarrow> string) \<Rightarrow> gotime \<Rightarrow> string \<Rightarrow> fs \<Rightarrow> (mon \<times> bool \<times> int) outcome \<times> fs" where
  "mon_setup toml date now cfg f =
     (case read_config toml cfg f of
        Inl e \<Rightarrow> (Inl e, f)
      | Inr c \<Rightarrow>
          (case MkdirAll (mc_Datadir c) f of
             (Some e, f) \<Rightarrow> (Inl e, f)
           | (None, f) \<Rightarrow>
               (case WriteFile (log_name date (mc_Datadir c) now) [] f of
                  (Some e, f) \<Rightarrow> (Inl e, f)
                | (None, f) \<Rightarrow>
                    (Inr (mon_New date (mc_Datadir c) (mc_Every c) now Map.empty, mc_Aggregate c,
                          if 0 < mc_Rotate c then Seconds (mc_Rotate c) else 3600 * 1000000000), f))))"

text \<open>What happens to a monitor: a packet, the ticker of five minutes, the ticker of the rotation with the result of \<^verbatim>\<open>os.Create\<close>.\<close>

datatype mon_event = MonPacket HRPacket | MonTotals | MonRotate gotime "go_error option"

definition mon_event_step ::
  "panda \<Rightarrow> header_lengths \<Rightarrow> (gotime \<Rightarrow> string) \<Rightarrow> bool \<Rightarrow> mon_event \<Rightarrow> mon \<Rightarrow> go_error option \<times> mon" where
  "mon_event_step pa hl date a ev m =
     (case ev of
        MonPacket p \<Rightarrow> mon_Process pa hl p m
      | MonTotals \<Rightarrow> (None, mon_aggregate a m)
      | MonRotate now err \<Rightarrow> (None, mon_rotate date now err m))"

text \<open>The events until a panic ends the program; \<^verbatim>\<open>time.NewTicker\<close> panics on a period that is not positive.\<close>

fun mon_events ::
  "panda \<Rightarrow> header_lengths \<Rightarrow> (gotime \<Rightarrow> string) \<Rightarrow> bool \<Rightarrow> mon_event list \<Rightarrow> mon \<Rightarrow> go_error option \<times> mon" where
  "mon_events pa hl date a [] m = (None, m)"
| "mon_events pa hl date a (ev # evs) m =
     (case mon_event_step pa hl date a ev m of (Some e, m) \<Rightarrow> (Some e, m) | (None, m) \<Rightarrow> mon_events pa hl date a evs m)"

definition mon_run ::
  "panda \<Rightarrow> header_lengths \<Rightarrow> (gotime \<Rightarrow> string) \<Rightarrow> bool \<Rightarrow> int \<Rightarrow> mon_event list \<Rightarrow> mon \<Rightarrow> go_error option \<times> mon" where
  "mon_run pa hl date a d evs m =
     (if d \<le> 0 then (Some (GoPanic ''non-positive interval for NewTicker''), m) else mon_events pa hl date a evs m)"

section \<open>SVS converter and hashes\<close>

record svs_config =
  sc_Datadir :: string
  sc_Epoch :: string
  sc_Interval :: int
  sc_Levels :: "string list"

definition svs_New :: "(bytes \<Rightarrow> svs_config outcome) \<Rightarrow> string \<Rightarrow> fs \<Rightarrow> dirmaker outcome" where
  "svs_New toml cfg f =
     (case read_config toml cfg f of
        Inl e \<Rightarrow> Inl e
      | Inr c \<Rightarrow> Inr (NewDirectory (sc_Datadir c) (sc_Epoch c) (sc_Levels c) (sc_Interval c)))"

text \<open>The text of the element that \<^verbatim>\<open>UPI.MarshalXML\<close> encodes.\<close>

definition upi_text :: "bytes \<Rightarrow> string" where
  "upi_text xs = string_of_bytes (trim_zeros xs)"

record xxhsum_config =
  xc_Seed :: uint64
  xc_Alg :: uint64

definition xxhsum_setup :: "(bytes \<Rightarrow> xxhsum_config outcome) \<Rightarrow> string \<Rightarrow> fs \<Rightarrow> digest outcome" where
  "xxhsum_setup toml cfg f =
     (case read_config toml cfg f of Inl e \<Rightarrow> Inl e | Inr c \<Rightarrow> xxhsum_New (xc_Seed c) (xc_Alg c))"

section \<open>Properties\<close>

definition mon_lines :: "mon \<Rightarrow> mon_line list" where
  "mon_lines m = (case mn_files m (mn_current m) of None \<Rightarrow> [] | Some ls \<Rightarrow> ls)"

text \<open>The packets of the current group with those of the groups in the current log file.\<close>

definition mon_total :: "mon \<Rightarrow> uint64" where
  "mon_total m = mn_count m + sum_list (map ml_count (filter (\<lambda>l. ml_kind l = CHR ''g'') (mon_lines m)))"

fun counted :: "panda \<Rightarrow> mon_event \<Rightarrow> bool" where
  "counted pa (MonPacket p) = (hr_Version p = VMUProtocol2 pa)"
| "counted pa MonTotals = False"
| "counted pa (MonRotate now err) = False"

fun no_rotation :: "mon_event \<Rightarrow> bool" where
  "no_rotation (MonRotate now None) = False"
| "no_rotation ev = True"

lemma mon_lines_Printf [simp]: "mon_lines (mon_Printf k m) = mon_lines m @
    [\<lparr>ml_kind = k, ml_first = mn_first m, ml_last = mn_last m, ml_size = mn_size m, ml_count = mn_count m\<rparr>]"
  by (simp add: mon_lines_def mon_Printf_def)

lemma mon_lines_updates [simp]:
  "mon_lines (m\<lparr>mn_first := a\<rparr>) = mon_lines m" "mon_lines (m\<lparr>mn_last := a\<rparr>) = mon_lines m"
  "mon_lines (m\<lparr>mn_starts := b\<rparr>) = mon_lines m" "mon_lines (m\<lparr>mn_ends := b\<rparr>) = mon_lines m"
  "mon_lines (m\<lparr>mn_size := c\<rparr>) = mon_lines m" "mon_lines (m\<lparr>mn_count := c\<rparr>) = mon_lines m"
  by (simp_all add: mon_lines_def)

lemma mon_total_event:
  assumes "mon_event_step pa hl date a ev m = (None, m')" and "no_rotation ev"
  shows "mon_total m' = (if counted pa ev then 1 else 0) + mon_total m"
proof (cases ev)
  case (MonPacket p)
  with assms(1) show ?thesis
    by (auto simp: mon_event_step_def mon_Process_def mon_total_def Let_def ac_simps split: if_splits option.splits packet_kind.splits)
next
  case MonTotals
  have "mn_count (mon_Printf k m) = mn_count m" for k by (simp add: mon_Printf_def)
  with MonTotals assms(1) show ?thesis by (auto simp: mon_event_step_def mon_aggregate_def mon_total_def)
next
  case (MonRotate now err)
  with assms show ?thesis by (cases err) (auto simp: mon_event_step_def mon_rotate_def)
qed

text \<open>
  As long as the log is not rotated the monitor counts every packet of version 2 once: those of the groups that it logged
  and those of the current group are together the packets that it was given, whatever the order of packets and tickers.
\<close>

theorem mon_events_count:
  assumes "mon_events pa hl date a evs m = (None, m')" and "list_all no_rotation evs"
  shows "mon_total m' = of_nat (length (filter (counted pa) evs)) + mon_total m"
  using assms
proof (induction evs arbitrary: m)
  case (Cons ev evs)
  from Cons.prems(1) obtain m1 where m1: "mon_event_step pa hl date a ev m = (None, m1)" "mon_events pa hl date a evs m1 = (None, m')"
    by (auto split: prod.splits option.splits)
  from Cons.IH [OF m1(2)] Cons.prems(2) mon_total_event [OF m1(1)] show ?case by (simp add: ac_simps)
qed simp

theorem mon_events_count_witness:
  "mon_total (snd (mon_events sample_panda \<lparr>hl_VMU = 24, hl_IDHv2 = 88, hl_SDHv2 = 68\<rparr> (\<lambda>_. ''20180101'') True
     [MonPacket sample_table, MonTotals, MonPacket late_table] (sample_mon\<lparr>mn_starts := 0\<rparr>))) = 2"
proof -
  let ?run = "mon_events sample_panda \<lparr>hl_VMU = 24, hl_IDHv2 = 88, hl_SDHv2 = 68\<rparr> (\<lambda>_. ''20180101'') True
     [MonPacket sample_table, MonTotals, MonPacket late_table] (sample_mon\<lparr>mn_starts := 0\<rparr>)"
  have "fst ?run = None" by code_simp
  then have "?run = (None, snd ?run)" by (metis prod.collapse)
  from mon_events_count [OF this] have "mon_total (snd ?run) = of_nat (length (filter (counted sample_panda)
      [MonPacket sample_table, MonTotals, MonPacket late_table])) + mon_total (sample_mon\<lparr>mn_starts := 0\<rparr>)" by simp
  moreover have "length (filter (counted sample_panda) [MonPacket sample_table, MonTotals, MonPacket late_table]) = 2"
    "mon_total (sample_mon\<lparr>mn_starts := 0\<rparr>) = 0"
    by code_simp+
  ultimately show ?thesis by simp
qed

text \<open>A monitor that was set up has its directory and its log file, which is empty; it starts with no packet.\<close>

lemma mon_setup_starts:
  assumes "mon_setup toml date now cfg f = (Inr (m, a, d), f')"
  shows "\<exists>c. read_config toml cfg f = Inr c \<and> mn_datadir m = mc_Datadir c \<and> mn_current m = log_name date (mc_Datadir c) now \<and>
    mon_lines m = [] \<and> mon_total m = 0 \<and> IsZero (mn_first m)"
  using assms by (auto simp: mon_setup_def mon_New_def mon_lines_def mon_total_def IsZero_def zero_time_def split: outcome_splits)

end
